theory Spec2Isabelle
  imports Complex_Main
begin

section \<open>The expression tree\<close>

text \<open>
  The node classes come from COFFEE's \<^verbatim>\<open>base\<close> module. A \<^verbatim>\<open>Symbol\<close> carries in its
  field \<^verbatim>\<open>symbol\<close> either a name (a Python \<^verbatim>\<open>str\<close>) or a number (\<^verbatim>\<open>int\<close>, \<^verbatim>\<open>float\<close>), and
  in \<^verbatim>\<open>rank\<close> the tuple of its indices. Numbers are modelled as exact rationals: the
  rounding of Python floats is not part of the model. Constant indices of a rank are
  carried as their text. Trees are values: no node object occurs twice in a tree.
\<close>

datatype sval = Str string | Num rat

datatype node =
    Symbol sval "string list"
  | Par node
  | Sum node node
  | Sub node node
  | Prod node node
  | Div node node
  | Neg node
  | FunCall string "node list"
  | Ternary node node node

fun is_Symbol :: "node \<Rightarrow> bool" where
  "is_Symbol (Symbol s r) = True"
| "is_Symbol n = False"

text \<open>\<^verbatim>\<open>isinstance(s.symbol, (int, float))\<close> for a Symbol \<^verbatim>\<open>s\<close>.\<close>

fun is_number :: "node \<Rightarrow> bool" where
  "is_number (Symbol (Num v) r) = True"
| "is_number n = False"

fun number_of :: "node \<Rightarrow> rat" where
  "number_of (Symbol (Num v) r) = v"
| "number_of n = 1"

text \<open>
  Modelled from the spec: \<^verbatim>\<open>explore_operator\<close> (module \<^verbatim>\<open>utils\<close> of the revision that
  \<^verbatim>\<open>rewriter.py\<close> imports; the \<^verbatim>\<open>utils.py\<close> at hand predates it). It lists, left to
  right, the operands of the operator chain rooted in a node: a child of the same class
  as the node is explored in turn, any other child is an operand ("within each Prod
  operator chain", "within any Prod subtree"). The model keeps the operands and leaves
  out the parent each of them is paired with, which serves the in-place update only.
\<close>

fun explore_Prod :: "node \<Rightarrow> node list" where
  "explore_Prod (Prod l r) = explore_Prod l @ explore_Prod r"
| "explore_Prod n = [n]"

fun explore_Sum :: "node \<Rightarrow> node list" where
  "explore_Sum (Sum l r) = explore_Sum l @ explore_Sum r"
| "explore_Sum n = [n]"

fun explore_Sub :: "node \<Rightarrow> node list" where
  "explore_Sub (Sub l r) = explore_Sub l @ explore_Sub r"
| "explore_Sub n = [n]"

fun explore_operator :: "node \<Rightarrow> node list" where
  "explore_operator (Prod l r) = explore_Prod l @ explore_Prod r"
| "explore_operator (Sum l r) = explore_Sum l @ explore_Sum r"
| "explore_operator (Sub l r) = explore_Sub l @ explore_Sub r"
| "explore_operator n = []"

section \<open>The factorizer: constant premultiplication\<close>

text \<open>
  \<^verbatim>\<open>ExpressionFactorizer._premultiply_symbols\<close>: when more than one of the symbols is a
  number, the numbers are multiplied together (\<^verbatim>\<open>reduce(operator.mul, ..., 1.0)\<close>) and
  the product, unless it is one, is put in front of the other symbols.
\<close>

definition premultiply_symbols :: "node list \<Rightarrow> node list" where
  "premultiply_symbols symbols =
     (let floats = filter is_number symbols in
      if length floats > 1 then
        (let other_symbols = filter (\<lambda>s. s \<notin> set floats) symbols;
             prem = foldl (*) 1 (map number_of floats);
             prem' = (if prem \<noteq> 1 then [Symbol (Num prem) []] else [])
         in prem' @ other_symbols)
      else symbols)"

text \<open>\<^verbatim>\<open>ExpressionFactorizer.Term\<close> and its static method \<^verbatim>\<open>process\<close>.\<close>

datatype opclass = OpProd | OpSum | OpSub

record "term" =
  operands :: "node list"
  factors :: "node list"
  op :: "opclass option"

definition Term_process :: "node list \<Rightarrow> (node \<Rightarrow> bool) \<Rightarrow> opclass option \<Rightarrow> term" where
  "Term_process symbols should_factorize opc =
     \<lparr> operands = filter should_factorize symbols,
       factors = filter (\<lambda>s. \<not> should_factorize s) symbols,
       op = opc \<rparr>"

text \<open>
  The \<^verbatim>\<open>Prod\<close> branch of \<^verbatim>\<open>_factorize\<close>, up to the construction of the Term: the
  symbols of the chain are premultiplied and handed to \<^verbatim>\<open>Term.process\<close>.
\<close>

definition factorize_Prod_symbols :: "node \<Rightarrow> node list" where
  "factorize_Prod_symbols n = premultiply_symbols (filter is_Symbol (explore_operator n))"

definition factorize_Prod_term :: "(node \<Rightarrow> bool) \<Rightarrow> node \<Rightarrow> term" where
  "factorize_Prod_term should_factorize n =
     Term_process (factorize_Prod_symbols n) should_factorize (Some OpProd)"

text \<open>The product of the numbers of a list of symbols; the empty product is one.\<close>

definition numbers_product :: "node list \<Rightarrow> rat" where
  "numbers_product symbols = prod_list (map number_of (filter is_number symbols))"

lemma foldl_times_prod_list: "foldl (*) (a::rat) xs = a * prod_list xs"
  by (induction xs arbitrary: a) (simp_all add: mult.assoc)

lemma not_in_numbers_iff:
  "filter (\<lambda>s. s \<notin> set (filter is_number xs)) xs = filter (\<lambda>s. \<not> is_number s) xs"
  by (rule filter_cong) auto

lemma premultiply_numbers_le1:
  "length (filter is_number (premultiply_symbols xs)) \<le> 1"
  unfolding premultiply_symbols_def Let_def not_in_numbers_iff by simp

lemma premultiply_numbers_product:
  "numbers_product (premultiply_symbols xs) = numbers_product xs"
  unfolding premultiply_symbols_def Let_def not_in_numbers_iff numbers_product_def
  by (simp add: foldl_times_prod_list)

lemma premultiply_others:
  "filter (\<lambda>s. \<not> is_number s) (premultiply_symbols xs) = filter (\<lambda>s. \<not> is_number s) xs"
  unfolding premultiply_symbols_def Let_def not_in_numbers_iff by simp

text \<open>
  Claim C9. Within a \<^verbatim>\<open>Prod\<close> subtree handled by the factorizer, the symbol list handed
  to the construction of the Term holds at most one number, the product of the numbers
  it holds (one when it holds none) is the product of all the numbers among the symbols
  of the chain, and the other symbols are handed over as they are, in their order.
\<close>

theorem premultiply_single_literal:
  "length (filter is_number (factorize_Prod_symbols n)) \<le> 1
   \<and> numbers_product (factorize_Prod_symbols n)
       = numbers_product (filter is_Symbol (explore_operator n))
   \<and> filter (\<lambda>s. \<not> is_number s) (factorize_Prod_symbols n)
       = filter (\<lambda>s. \<not> is_number s) (filter is_Symbol (explore_operator n))
   \<and> operands (factorize_Prod_term sf n) @ factors (factorize_Prod_term sf n)
       = filter sf (factorize_Prod_symbols n)
         @ filter (\<lambda>s. \<not> sf s) (factorize_Prod_symbols n)"
  unfolding factorize_Prod_symbols_def factorize_Prod_term_def Term_process_def
  using premultiply_numbers_le1 [of "filter is_Symbol (explore_operator n)"]
  by (simp add: premultiply_numbers_product premultiply_others)

section \<open>The expression graph\<close>

text \<open>
  \<^verbatim>\<open>ExpressionGraph\<close> of \<^verbatim>\<open>optimizer.py\<close> wraps a \<^verbatim>\<open>networkx.DiGraph\<close>, whose
  \<^verbatim>\<open>add_edge\<close> also adds the two end points to the nodes of the graph.
\<close>

record digraph =
  nodes :: "sval set"
  edges :: "(sval \<times> sval) set"

definition empty_graph :: digraph where
  "empty_graph = \<lparr> nodes = {}, edges = {} \<rparr>"

definition add_edge :: "digraph \<Rightarrow> sval \<Rightarrow> sval \<Rightarrow> digraph" where
  "add_edge g u v = \<lparr> nodes = insert u (insert v (nodes g)), edges = insert (u, v) (edges g) \<rparr>"

text \<open>The inner function \<^verbatim>\<open>extract_syms\<close> of \<^verbatim>\<open>add_dependency\<close>.\<close>

fun extract_syms :: "sval \<Rightarrow> node \<Rightarrow> digraph \<Rightarrow> digraph" where
  "extract_syms lhs (Symbol s r) deps = add_edge deps lhs s"
| "extract_syms lhs (Par c) deps = extract_syms lhs c deps"
| "extract_syms lhs (Sum l r) deps = extract_syms lhs r (extract_syms lhs l deps)"
| "extract_syms lhs (Sub l r) deps = extract_syms lhs r (extract_syms lhs l deps)"
| "extract_syms lhs (Prod l r) deps = extract_syms lhs r (extract_syms lhs l deps)"
| "extract_syms lhs (Div l r) deps = extract_syms lhs r (extract_syms lhs l deps)"
| "extract_syms lhs (Neg c) deps = extract_syms lhs c deps"
| "extract_syms lhs (FunCall f args) deps = fold (extract_syms lhs) args deps"
| "extract_syms lhs (Ternary c t f) deps =
     extract_syms lhs f (extract_syms lhs t (extract_syms lhs c deps))"

text \<open>
  \<^verbatim>\<open>ExpressionGraph.add_dependency(sym, expr, self_loop)\<close>; the argument \<open>lhs\<close> of the
  model is the field \<^verbatim>\<open>symbol\<close> of the Symbol \<^verbatim>\<open>sym\<close>.
\<close>

definition add_dependency :: "digraph \<Rightarrow> sval \<Rightarrow> node \<Rightarrow> bool \<Rightarrow> digraph" where
  "add_dependency g lhs expr self_loop =
     extract_syms lhs expr (if self_loop then add_edge g lhs lhs else g)"

text \<open>The names of the Symbols that occur in a tree.\<close>

fun symbol_names :: "node \<Rightarrow> sval set" where
  "symbol_names (Symbol s r) = {s}"
| "symbol_names (Par c) = symbol_names c"
| "symbol_names (Sum l r) = symbol_names l \<union> symbol_names r"
| "symbol_names (Sub l r) = symbol_names l \<union> symbol_names r"
| "symbol_names (Prod l r) = symbol_names l \<union> symbol_names r"
| "symbol_names (Div l r) = symbol_names l \<union> symbol_names r"
| "symbol_names (Neg c) = symbol_names c"
| "symbol_names (FunCall f args) = \<Union> (set (map symbol_names args))"
| "symbol_names (Ternary c t f) = symbol_names c \<union> symbol_names t \<union> symbol_names f"

text \<open>\<^verbatim>\<open>is_written\<close> in the words of the spec: the symbol has an outgoing edge.\<close>

definition has_out_edge :: "digraph \<Rightarrow> sval \<Rightarrow> bool" where
  "has_out_edge g s = (\<exists>t. (s, t) \<in> edges g)"

lemma fold_edges_aux:
  assumes "\<And>a g. a \<in> set args \<Longrightarrow> edges (f a g) = edges g \<union> Pair lhs ` S a"
  shows "edges (fold f args g) = edges g \<union> Pair lhs ` (\<Union> (set (map S args)))"
  using assms by (induction args arbitrary: g) auto

lemma edges_extract_syms:
  "edges (extract_syms lhs e g) = edges g \<union> Pair lhs ` symbol_names e"
proof (induction e arbitrary: g)
  case (FunCall f args)
  show ?case
    using fold_edges_aux [of args "extract_syms lhs" lhs symbol_names g] FunCall
    by simp
qed (auto simp: add_edge_def)

text \<open>
  Claim C4, as the code has it. \<^verbatim>\<open>add_dependency(sym, expr, self_loop)\<close> adds an edge from
  \<^verbatim>\<open>sym\<close> to the name of every Symbol of \<^verbatim>\<open>expr\<close>, and it adds the self-edge exactly
  when the caller passes a true \<^verbatim>\<open>self_loop\<close>, whatever edges \<^verbatim>\<open>sym\<close> has already.
\<close>

theorem add_dependency_edges:
  "edges (add_dependency g lhs expr self_loop)
     = edges g \<union> Pair lhs ` symbol_names expr \<union> (if self_loop then {(lhs, lhs)} else {})"
  by (auto simp: add_dependency_def edges_extract_syms add_edge_def)

text \<open>
  The claim as the spec words it fails in both directions. A symbol that already has an
  outgoing edge gets no self-edge when the caller passes \<^verbatim>\<open>False\<close> (as the expander of
  \<^verbatim>\<open>optimizer.py\<close> does when it expands a hoisted expression in place), and a symbol
  with no edge at all gets one when the caller passes \<^verbatim>\<open>True\<close>.
\<close>

theorem add_dependency_self_edge_counterexample:
  "has_out_edge (add_edge empty_graph (Str ''t'') (Str ''a'')) (Str ''t'')
   \<and> (Str ''t'', Str ''t'')
       \<notin> edges (add_dependency (add_edge empty_graph (Str ''t'') (Str ''a'')) (Str ''t'')
                  (Symbol (Str ''b'') []) False)
   \<and> \<not> has_out_edge empty_graph (Str ''t'')
   \<and> (Str ''t'', Str ''t'')
       \<in> edges (add_dependency empty_graph (Str ''t'') (Symbol (Str ''b'') []) True)"
  by (auto simp: has_out_edge_def add_dependency_def add_edge_def empty_graph_def)

section \<open>The choice of the expansion dimension\<close>

text \<open>
  Modelled from the spec: \<^verbatim>\<open>MetaExpr\<close> (module \<^verbatim>\<open>expression\<close>, not at hand). It gives
  the dimensions of the loops that enclose the expression, \<^verbatim>\<open>dims\<close>, split into the
  domain dimensions and the out-of-domain ones; "dimension = number of domain loops".
\<close>

record metaexpr =
  dims :: "string list"
  domain_dims :: "string list"
  out_domain_dims :: "string list"

definition dimension :: "metaexpr \<Rightarrow> nat" where
  "dimension info = length (domain_dims info)"

text \<open>
  Modelled from the spec: \<^verbatim>\<open>FindInstances(Symbol).visit(node)[Symbol]\<close> (module
  \<^verbatim>\<open>visitors\<close>, not at hand), the Symbol occurrences of a tree, left to right.
\<close>

fun find_symbols :: "node \<Rightarrow> node list" where
  "find_symbols (Symbol s r) = [Symbol s r]"
| "find_symbols (Par c) = find_symbols c"
| "find_symbols (Sum l r) = find_symbols l @ find_symbols r"
| "find_symbols (Sub l r) = find_symbols l @ find_symbols r"
| "find_symbols (Prod l r) = find_symbols l @ find_symbols r"
| "find_symbols (Div l r) = find_symbols l @ find_symbols r"
| "find_symbols (Neg c) = find_symbols c"
| "find_symbols (FunCall f args) = concat (map find_symbols args)"
| "find_symbols (Ternary c t f) = find_symbols c @ find_symbols t @ find_symbols f"

fun rank :: "node \<Rightarrow> string list" where
  "rank (Symbol s r) = r"
| "rank n = []"

text \<open>
  \<^verbatim>\<open>Counter(occurrences).most_common(1)[0][0]\<close>. A Counter is a dictionary, and
  \<^verbatim>\<open>most_common(1)\<close> returns the first key of highest count in the iteration order of
  the dictionary, which Python 2 does not fix. The iteration order is the parameter
  \<open>order\<close>, a rearrangement of the keys; the keys are given to it in the order of their
  first insertion.
\<close>

fun first_max :: "('a \<Rightarrow> nat) \<Rightarrow> 'a \<Rightarrow> 'a list \<Rightarrow> 'a" where
  "first_max cnt best [] = best"
| "first_max cnt best (k # ks) = first_max cnt (if cnt best < cnt k then k else best) ks"

definition most_common1 :: "('a list \<Rightarrow> 'a list) \<Rightarrow> 'a list \<Rightarrow> 'a option" where
  "most_common1 order xs =
     (case order (remdups xs) of
        [] \<Rightarrow> None
      | k # ks \<Rightarrow> Some (first_max (count_list xs) k ks))"

text \<open>
  The head of the branch \<^verbatim>\<open>mode == 'standard'\<close>, the same in \<^verbatim>\<open>expand\<close> and in
  \<^verbatim>\<open>factorize\<close>: the dimensions that are counted, the occurrences, and the tuple of
  dimensions that is chosen (\<open>None\<close> when the method returns early, with no occurrence).
\<close>

definition standard_dims :: "metaexpr \<Rightarrow> string list" where
  "standard_dims info =
     (let ds = out_domain_dims info in
      if ds = [] \<or> dimension info \<ge> 2 then domain_dims info else ds)"

definition standard_occurrences :: "metaexpr \<Rightarrow> node \<Rightarrow> string list list" where
  "standard_occurrences info rvalue =
     (let symbols = find_symbols rvalue;
          ds = standard_dims info;
          occurrences = map (\<lambda>s. filter (\<lambda>r. r \<in> set ds) (rank s)) symbols
      in filter (\<lambda>i. i \<noteq> []) occurrences)"

definition standard_dimension ::
  "(string list list \<Rightarrow> string list list) \<Rightarrow> metaexpr \<Rightarrow> node \<Rightarrow> string list option" where
  "standard_dimension order info rvalue =
     most_common1 order (standard_occurrences info rvalue)"

text \<open>\<^verbatim>\<open>lambda n: set(dimension).issubset(set(n.rank))\<close>\<close>

definition along :: "string list \<Rightarrow> node \<Rightarrow> bool" where
  "along ds n = (set ds \<subseteq> set (rank n))"

lemma first_max_mem: "first_max cnt b ks \<in> set (b # ks)"
  by (induction ks arbitrary: b) auto

lemma first_max_ge_best: "cnt b \<le> cnt (first_max cnt b ks)"
proof (induction ks arbitrary: b)
  case Nil
  show ?case by simp
next
  case (Cons k ks)
  have "cnt b \<le> cnt (if cnt b < cnt k then k else b)" by simp
  also have "\<dots> \<le> cnt (first_max cnt (if cnt b < cnt k then k else b) ks)"
    by (rule Cons.IH)
  finally show ?case by simp
qed

lemma first_max_ge: "x \<in> set (b # ks) \<Longrightarrow> cnt x \<le> cnt (first_max cnt b ks)"
proof (induction ks arbitrary: b)
  case Nil
  then show ?case by simp
next
  case (Cons k ks)
  let ?b = "if cnt b < cnt k then k else b"
  from Cons.prems consider "x = b" | "x = k" | "x \<in> set ks" by auto
  then show ?case
  proof cases
    case 1
    have "cnt b \<le> cnt ?b" by simp
    also have "\<dots> \<le> cnt (first_max cnt ?b ks)" by (rule first_max_ge_best)
    finally show ?thesis using 1 by simp
  next
    case 2
    have "cnt k \<le> cnt ?b" by simp
    also have "\<dots> \<le> cnt (first_max cnt ?b ks)" by (rule first_max_ge_best)
    finally show ?thesis using 2 by simp
  next
    case 3
    then have "cnt x \<le> cnt (first_max cnt ?b ks)" using Cons.IH [of ?b] by simp
    then show ?thesis by simp
  qed
qed

lemma most_common1_Some:
  assumes perm: "set (order (remdups xs)) = set xs" and d: "most_common1 order xs = Some d"
  shows "d \<in> set xs \<and> (\<forall>x \<in> set xs. count_list xs x \<le> count_list xs d)"
proof (cases "order (remdups xs)")
  case Nil
  with d show ?thesis by (simp add: most_common1_def)
next
  case (Cons k ks)
  have d_eq: "d = first_max (count_list xs) k ks" using d by (simp add: most_common1_def Cons)
  have keys: "set (k # ks) = set xs" using perm by (simp only: Cons)
  have "d \<in> set (k # ks)" unfolding d_eq by (rule first_max_mem)
  then have 2: "d \<in> set xs" by (simp only: keys)
  have 3: "count_list xs x \<le> count_list xs d" if "x \<in> set xs" for x
  proof -
    from that have "x \<in> set (k # ks)" by (simp only: keys)
    then show ?thesis unfolding d_eq by (rule first_max_ge)
  qed
  from 2 3 show ?thesis by blast
qed

lemma most_common1_None:
  "set (order (remdups xs)) = set xs \<Longrightarrow> (most_common1 order xs = None) = (xs = [])"
  by (cases "order (remdups xs)") (auto simp: most_common1_def)

lemmas standard_eval =
  standard_dimension_def most_common1_def standard_occurrences_def standard_dims_def
  dimension_def Let_def

section \<open>Statements, and reassociation\<close>

text \<open>
  The statement a rewriter works on is a Writer: an assignment or an update in place, with
  a left-hand side and a right-hand side (\<^verbatim>\<open>stmt.rvalue\<close>).
\<close>

datatype writer =
    Assign node node
  | Incr node node
  | Decr node node
  | IMul node node
  | IDiv node node

fun lvalue :: "writer \<Rightarrow> node" where
  "lvalue (Assign l r) = l"
| "lvalue (Incr l r) = l"
| "lvalue (Decr l r) = l"
| "lvalue (IMul l r) = l"
| "lvalue (IDiv l r) = l"

fun rvalue :: "writer \<Rightarrow> node" where
  "rvalue (Assign l r) = r"
| "rvalue (Incr l r) = r"
| "rvalue (Decr l r) = r"
| "rvalue (IMul l r) = r"
| "rvalue (IDiv l r) = r"

text \<open>The assignment \<^verbatim>\<open>stmt.rvalue = r'\<close>, or the replacement of that child of the statement.\<close>

fun set_rvalue :: "writer \<Rightarrow> node \<Rightarrow> writer" where
  "set_rvalue (Assign l r) r' = Assign l r'"
| "set_rvalue (Incr l r) r' = Incr l r'"
| "set_rvalue (Decr l r) r' = Decr l r'"
| "set_rvalue (IMul l r) r' = IMul l r'"
| "set_rvalue (IDiv l r) r' = IDiv l r'"

fun is_Prod :: "node \<Rightarrow> bool" where
  "is_Prod (Prod l r) = True"
| "is_Prod n = False"

lemma explore_Prod_size: "x \<in> set (explore_Prod n) \<Longrightarrow> size x \<le> size n"
  by (induction n rule: explore_Prod.induct) auto

text \<open>
  The exceptions of the source that the model keeps as values. \<^verbatim>\<open>NameError\<close> is the
  use of a name that no module defines.
\<close>

datatype error = RuntimeError | ValueError | ZeroDivisionError | AttributeError | NameError

text \<open>
  A loop \<^verbatim>\<open>for n in ...: _reassociate(n, p)\<close> over nodes that are updated in place: each
  element of the list pairs a node with the outcome of the call on it, the exception if
  one is raised and the node as the call leaves it. The first exception ends the loop, and
  the nodes that follow are left as they were.
\<close>

fun seq_first :: "('a \<times> error option \<times> 'a) list \<Rightarrow> error option \<times> 'a list" where
  "seq_first [] = (None, [])"
| "seq_first ((n, Some e, n') # rest) = (Some e, n' # map fst rest)"
| "seq_first ((n, None, n') # rest) =
     (case seq_first rest of (e, ns') \<Rightarrow> (e, n' # ns'))"

text \<open>
  The operator chain of a \<^verbatim>\<open>Prod\<close> whose operands that are not Symbols have been updated in
  place: they are, in order, the given nodes.
\<close>

fun put_back :: "node \<Rightarrow> node list \<Rightarrow> node \<times> node list" where
  "put_back (Prod l r) xs =
     (case put_back l xs of (l', xs1) \<Rightarrow>
        case put_back r xs1 of (r', xs2) \<Rightarrow> (Prod l' r', xs2))"
| "put_back (Symbol s r) xs = (Symbol s r, xs)"
| "put_back n [] = (n, [])"
| "put_back n (x # xs) = (x, xs)"

text \<open>
  The inner function \<^verbatim>\<open>_reassociate\<close> of \<^verbatim>\<open>ExpressionRewriter.reassociate\<close>. The source
  updates the tree in place: the model returns the exception, if one is raised, and the node
  that stands, after the call, where \<^verbatim>\<open>node\<close> stood. Python's \<^verbatim>\<open>sorted\<close> is stable, as
  \<open>sort_key\<close> is. A \<^verbatim>\<open>Prod\<close> is replaced by the reassociated product once every operand has
  been dealt with; an exception before that leaves the chain in place, with the operands as
  the calls left them.

  The last branch, for a node of any other class, evaluates
  \<^verbatim>\<open>warning('Unexpect node of type %s while reassociating', typ(node))\<close>. No module at hand
  defines \<^verbatim>\<open>typ\<close>, and \<^verbatim>\<open>warning\<close> is \<^verbatim>\<open>warnings.warn\<close>, whose second argument has to be a
  warning class: the branch raises, \<^verbatim>\<open>NameError\<close> in the model.

  \<^verbatim>\<open>ast_make_expr(Prod, children, balance=False)\<close> belongs to the same module as
  \<^verbatim>\<open>explore_operator\<close> and is not at hand: it is the parameter \<open>mk\<close>.
\<close>

function reassociate_node ::
  "(node \<Rightarrow> 'k::linorder) \<Rightarrow> (node list \<Rightarrow> node) \<Rightarrow> node \<Rightarrow> error option \<times> node" where
  "reassociate_node reorder mk (Symbol s r) = (None, Symbol s r)"
| "reassociate_node reorder mk (Div l r) = (None, Div l r)"
| "reassociate_node reorder mk (Par c) =
     (case reassociate_node reorder mk c of (e, c') \<Rightarrow> (e, Par c'))"
| "reassociate_node reorder mk (Sum l r) =
     (case reassociate_node reorder mk l of
        (Some e, l') \<Rightarrow> (Some e, Sum l' r)
      | (None, l') \<Rightarrow>
          (case reassociate_node reorder mk r of (e, r') \<Rightarrow> (e, Sum l' r')))"
| "reassociate_node reorder mk (Sub l r) =
     (case reassociate_node reorder mk l of
        (Some e, l') \<Rightarrow> (Some e, Sub l' r)
      | (None, l') \<Rightarrow>
          (case reassociate_node reorder mk r of (e, r') \<Rightarrow> (e, Sub l' r')))"
| "reassociate_node reorder mk (FunCall f args) =
     (case seq_first (map (\<lambda>n. (n, reassociate_node reorder mk n)) args) of
        (e, children) \<Rightarrow> (e, FunCall f children))"
| "reassociate_node reorder mk (Prod l r) =
     (let children = explore_operator (Prod l r);
          symbols = filter is_Symbol children
      in case seq_first (map (\<lambda>n. (n, reassociate_node reorder mk n))
                           (filter (\<lambda>n. \<not> is_Symbol n) children)) of
           (None, other_nodes) \<Rightarrow> (None, mk (other_nodes @ sort_key reorder symbols))
         | (Some e, other_nodes) \<Rightarrow> (Some e, fst (put_back (Prod l r) other_nodes)))"
| "reassociate_node reorder mk (Neg c) = (Some NameError, Neg c)"
| "reassociate_node reorder mk (Ternary c t f) = (Some NameError, Ternary c t f)"
  by pat_completeness auto
termination
  apply (relation "measure (\<lambda>(reorder, mk, n). size n)")
  apply (auto simp: less_Suc_eq_le size_list_estimation' dest!: explore_Prod_size)
  done

text \<open>
  \<^verbatim>\<open>reassociate(reorder)\<close>: the exception, if one is raised, and the statement as the call
  leaves it.
\<close>

definition reassociate ::
  "(node \<Rightarrow> 'k::linorder) \<Rightarrow> (node list \<Rightarrow> node) \<Rightarrow> writer \<Rightarrow> error option \<times> writer" where
  "reassociate reorder mk stmt =
     (case reassociate_node reorder mk (rvalue stmt) of (e, r) \<Rightarrow> (e, set_rvalue stmt r))"

text \<open>
  What is asked of \<^verbatim>\<open>ast_make_expr(Prod, ...)\<close>: from two or more operands none of which
  is a \<^verbatim>\<open>Prod\<close> it makes a \<^verbatim>\<open>Prod\<close> whose operator chain has these operands, in their
  order. The chain nested to the right, \<^verbatim>\<open>Prod(n0, Prod(n1, ...))\<close>, is such an
  expression.
\<close>

definition makes_Prod_chain :: "(node list \<Rightarrow> node) \<Rightarrow> bool" where
  "makes_Prod_chain mk =
     (\<forall>ns. 2 \<le> length ns \<and> list_all (\<lambda>n. \<not> is_Prod n) ns
            \<longrightarrow> is_Prod (mk ns) \<and> explore_operator (mk ns) = ns)"

fun right_chain :: "node list \<Rightarrow> node" where
  "right_chain [] = Symbol (Num 1) []"
| "right_chain [n] = n"
| "right_chain (n # ns) = Prod n (right_chain ns)"

lemma explore_Prod_not_Prod: "x \<in> set (explore_Prod n) \<Longrightarrow> \<not> is_Prod x"
  by (induction n rule: explore_Prod.induct) auto

lemma explore_Prod_length: "1 \<le> length (explore_Prod n)"
  by (induction n rule: explore_Prod.induct) auto

lemma reassociate_node_class:
  "\<not> is_Prod n \<Longrightarrow>
     \<not> is_Prod (snd (reassociate_node reorder mk n))
     \<and> is_Symbol (snd (reassociate_node reorder mk n)) = is_Symbol n"
  by (cases n) (auto split: prod.splits option.splits)

lemma right_chain_explore:
  "2 \<le> length ns \<Longrightarrow> list_all (\<lambda>n. \<not> is_Prod n) ns \<Longrightarrow>
     is_Prod (right_chain ns) \<and> explore_operator (right_chain ns) = ns"
proof (induction ns rule: right_chain.induct)
  case (3 n v va)
  show ?case
  proof (cases va)
    case Nil
    with 3 show ?thesis by (cases n; cases v) auto
  next
    case (Cons a as)
    with 3 have "is_Prod (right_chain (v # va)) \<and> explore_operator (right_chain (v # va)) = v # va"
      by simp
    with 3 Cons show ?thesis by (cases n) auto
  qed
qed auto

lemma makes_Prod_chain_right_chain: "makes_Prod_chain right_chain"
  unfolding makes_Prod_chain_def using right_chain_explore by blast

lemma seq_first_idem:
  assumes "\<And>x. x \<in> set ns \<Longrightarrow> f (snd (f x)) = f x"
  shows "seq_first (map (\<lambda>n. (n, f n)) (snd (seq_first (map (\<lambda>n. (n, f n)) ns))))
           = seq_first (map (\<lambda>n. (n, f n)) ns)"
  using assms
proof (induction ns)
  case Nil
  show ?case by simp
next
  case (Cons a ns)
  obtain e a' where a: "f a = (e, a')" by (cases "f a") auto
  from Cons.prems [of a] a have a': "f a' = (e, a')" by simp
  show ?case
  proof (cases e)
    case None
    obtain e2 ns' where s: "seq_first (map (\<lambda>n. (n, f n)) ns) = (e2, ns')"
      by (cases "seq_first (map (\<lambda>n. (n, f n)) ns)") auto
    from Cons have "seq_first (map (\<lambda>n. (n, f n)) (snd (seq_first (map (\<lambda>n. (n, f n)) ns))))
           = seq_first (map (\<lambda>n. (n, f n)) ns)" by simp
    with s have "seq_first (map (\<lambda>n. (n, f n)) ns') = (e2, ns')" by simp
    with a a' None s show ?thesis by simp
  next
    case (Some x)
    with a a' show ?thesis by (simp add: comp_def)
  qed
qed

lemma seq_first_all:
  assumes "\<And>x. x \<in> set ns \<Longrightarrow> P x \<and> P (snd (f x))"
  shows "list_all P (snd (seq_first (map (\<lambda>n. (n, f n)) ns)))
         \<and> length (snd (seq_first (map (\<lambda>n. (n, f n)) ns))) = length ns"
  using assms
proof (induction ns)
  case Nil
  show ?case by simp
next
  case (Cons a ns)
  obtain e a' where a: "f a = (e, a')" by (cases "f a") auto
  from Cons.prems [of a] a have pa: "P a'" by simp
  show ?case
  proof (cases e)
    case None
    obtain e2 ns' where s: "seq_first (map (\<lambda>n. (n, f n)) ns) = (e2, ns')"
      by (cases "seq_first (map (\<lambda>n. (n, f n)) ns)") auto
    from Cons have "list_all P (snd (seq_first (map (\<lambda>n. (n, f n)) ns)))
         \<and> length (snd (seq_first (map (\<lambda>n. (n, f n)) ns))) = length ns" by simp
    with a pa None s show ?thesis by simp
  next
    case (Some x)
    with a pa Cons.prems show ?thesis by (simp add: comp_def list_all_iff)
  qed
qed

lemma explore_Prod_leaf: "\<not> is_Prod x \<Longrightarrow> explore_Prod x = [x]"
  by (cases x) auto

lemma put_back_leaves:
  "list_all (\<lambda>x. \<not> is_Prod x \<and> \<not> is_Symbol x) xs
     \<Longrightarrow> length (filter (\<lambda>x. \<not> is_Symbol x) (explore_Prod n)) \<le> length xs
     \<Longrightarrow> snd (put_back n xs) = drop (length (filter (\<lambda>x. \<not> is_Symbol x) (explore_Prod n))) xs
         \<and> filter (\<lambda>x. \<not> is_Symbol x) (explore_Prod (fst (put_back n xs)))
             = take (length (filter (\<lambda>x. \<not> is_Symbol x) (explore_Prod n))) xs
         \<and> filter is_Symbol (explore_Prod (fst (put_back n xs))) = filter is_Symbol (explore_Prod n)
         \<and> is_Prod (fst (put_back n xs)) = is_Prod n"
proof (induction n xs rule: put_back.induct)
  case (1 l r xs)
  let ?kl = "length (filter (\<lambda>x. \<not> is_Symbol x) (explore_Prod l))"
  let ?kr = "length (filter (\<lambda>x. \<not> is_Symbol x) (explore_Prod r))"
  obtain l' xs1 where l: "put_back l xs = (l', xs1)" by (cases "put_back l xs") auto
  obtain r' xs2 where r: "put_back r xs1 = (r', xs2)" by (cases "put_back r xs1") auto
  from "1.prems" have len: "?kl + ?kr \<le> length xs" by simp
  from "1.IH"(1) [OF "1.prems"(1)] len l
  have il: "xs1 = drop ?kl xs" "filter (\<lambda>x. \<not> is_Symbol x) (explore_Prod l') = take ?kl xs"
    "filter is_Symbol (explore_Prod l') = filter is_Symbol (explore_Prod l)" by simp_all
  have all1: "list_all (\<lambda>x. \<not> is_Prod x \<and> \<not> is_Symbol x) xs1"
    using "1.prems"(1) il(1) by (auto simp: list_all_iff dest: in_set_dropD)
  have len1: "?kr \<le> length xs1" using len il(1) by simp
  from "1.IH"(2) [OF l [symmetric] all1 len1] r
  have ir: "xs2 = drop ?kr xs1" "filter (\<lambda>x. \<not> is_Symbol x) (explore_Prod r') = take ?kr xs1"
    "filter is_Symbol (explore_Prod r') = filter is_Symbol (explore_Prod r)" by simp_all
  have "take ?kl xs @ take ?kr (drop ?kl xs) = take (?kl + ?kr) xs"
    by (simp add: take_add)
  with l r il ir show ?case by (simp add: add.commute)
qed (simp_all add: explore_Prod_leaf)

lemma put_back_same:
  "put_back n (filter (\<lambda>x. \<not> is_Symbol x) (explore_Prod n) @ ys) = (n, ys)"
proof (induction n arbitrary: ys)
  case (Prod l r)
  then show ?case by simp
qed simp_all


lemma sort_key_twice: "sort_key f (sort_key f xs) = sort_key f xs"
  by (rule sort_key_id_if_sorted) simp

lemma reassociate_node_idem:
  assumes mk: "makes_Prod_chain mk"
  shows "reassociate_node reorder mk (snd (reassociate_node reorder mk n))
           = reassociate_node reorder mk n"
  using mk
proof (induction reorder mk n rule: reassociate_node.induct)
  case (3 reorder mk c)
  then show ?case by (cases "reassociate_node reorder mk c") auto
next
  case (4 reorder mk l r)
  obtain el l' where l: "reassociate_node reorder mk l = (el, l')"
    by (cases "reassociate_node reorder mk l") auto
  obtain er r' where r: "reassociate_node reorder mk r = (er, r')"
    by (cases "reassociate_node reorder mk r") auto
  from 4 l have l': "reassociate_node reorder mk l' = (el, l')" by simp
  show ?case
  proof (cases el)
    case None
    with 4 l r have "reassociate_node reorder mk r' = (er, r')" by simp
    with l l' r None show ?thesis by simp
  next
    case (Some e)
    with l l' show ?thesis by simp
  qed
next
  case (5 reorder mk l r)
  obtain el l' where l: "reassociate_node reorder mk l = (el, l')"
    by (cases "reassociate_node reorder mk l") auto
  obtain er r' where r: "reassociate_node reorder mk r = (er, r')"
    by (cases "reassociate_node reorder mk r") auto
  from 5 l have l': "reassociate_node reorder mk l' = (el, l')" by simp
  show ?case
  proof (cases el)
    case None
    with 5 l r have "reassociate_node reorder mk r' = (er, r')" by simp
    with l l' r None show ?thesis by simp
  next
    case (Some e)
    with l l' show ?thesis by simp
  qed
next
  case (6 reorder mk f args)
  let ?B = "reassociate_node reorder mk"
  have "seq_first (map (\<lambda>n. (n, ?B n)) (snd (seq_first (map (\<lambda>n. (n, ?B n)) args))))
           = seq_first (map (\<lambda>n. (n, ?B n)) args)"
    by (rule seq_first_idem) (use 6 in simp)
  then show ?case by (cases "seq_first (map (\<lambda>n. (n, ?B n)) args)") simp
next
  case (7 reorder mk l r)
  let ?B = "reassociate_node reorder mk"
  let ?S = "\<lambda>ns. seq_first (map (\<lambda>n. (n, ?B n)) ns)"
  let ?ch = "explore_operator (Prod l r)"
  let ?syms = "filter is_Symbol ?ch"
  let ?oth = "filter (\<lambda>n. \<not> is_Symbol n) ?ch"
  obtain e oth' where S: "?S ?oth = (e, oth')" by (cases "?S ?oth") auto
  have chnp: "\<not> is_Prod x" if "x \<in> set ?ch" for x
    using that explore_Prod_not_Prod by auto
  have idem: "?B (snd (?B x)) = ?B x" if "x \<in> set ?oth" for x
    using "7.IH" [OF refl refl _ "7.prems"] that by simp
  have S': "?S oth' = (e, oth')"
    using seq_first_idem [of ?oth ?B, OF idem] S by simp
  have cls: "(\<not> is_Prod x \<and> \<not> is_Symbol x) \<and> (\<not> is_Prod (snd (?B x)) \<and> \<not> is_Symbol (snd (?B x)))"
    if "x \<in> set ?oth" for x
  proof -
    from that have x: "x \<in> set ?ch" "\<not> is_Symbol x" by auto
    from x(1) have np: "\<not> is_Prod x" by (rule chnp)
    from np have "\<not> is_Prod (snd (?B x)) \<and> is_Symbol (snd (?B x)) = is_Symbol x"
      by (rule reassociate_node_class)
    with np x(2) show ?thesis by simp
  qed
  from seq_first_all [of ?oth "\<lambda>x. \<not> is_Prod x \<and> \<not> is_Symbol x" ?B, OF cls] S
  have oth: "list_all (\<lambda>x. \<not> is_Prod x \<and> \<not> is_Symbol x) oth'" and len: "length oth' = length ?oth"
    by simp_all
  have syms: "\<not> is_Prod x \<and> is_Symbol x" if "x \<in> set (sort_key reorder ?syms)" for x
  proof -
    from that have "x \<in> set ?ch" "is_Symbol x" by auto
    with chnp show ?thesis by simp
  qed
  have f1a: "filter is_Symbol oth' = []"
    using oth by (simp only: filter_empty_conv list_all_iff) blast
  have f2a: "filter (\<lambda>n. \<not> is_Symbol n) oth' = oth'"
    using oth by (simp only: filter_id_conv list_all_iff) blast
  show ?case
  proof (cases e)
    case None
    let ?P = "mk (oth' @ sort_key reorder ?syms)"
    from S None have B: "?B (Prod l r) = (None, ?P)" by (simp add: Let_def)
    have len2: "2 \<le> length (oth' @ sort_key reorder ?syms)"
    proof -
      have "length (oth' @ sort_key reorder ?syms) = length ?ch"
        using sum_length_filter_compl [of "\<lambda>n. \<not> is_Symbol n" ?ch] len by simp
      moreover have "2 \<le> length ?ch"
        using explore_Prod_length [of l] explore_Prod_length [of r] by simp
      ultimately show ?thesis by simp
    qed
    have np: "list_all (\<lambda>n. \<not> is_Prod n) (oth' @ sort_key reorder ?syms)"
      using oth syms unfolding list_all_iff by (metis Un_iff set_append)
    from "7.prems" len2 np have P: "is_Prod ?P" "explore_operator ?P = oth' @ sort_key reorder ?syms"
      unfolding makes_Prod_chain_def by blast+
    from P(1) obtain l' r' where lr: "?P = Prod l' r'" by (cases ?P) simp_all
    have f1b: "filter is_Symbol (sort_key reorder ?syms) = sort_key reorder ?syms"
      using syms by (simp only: filter_id_conv) blast
    have f2b: "filter (\<lambda>n. \<not> is_Symbol n) (sort_key reorder ?syms) = []"
      using syms by (simp only: filter_empty_conv) blast
    have f1: "filter is_Symbol (oth' @ sort_key reorder ?syms) = sort_key reorder ?syms"
      by (simp only: filter_append f1a f1b append_Nil)
    have f2: "filter (\<lambda>n. \<not> is_Symbol n) (oth' @ sort_key reorder ?syms) = oth'"
      by (simp only: filter_append f2a f2b append_Nil2)
    have "?B (Prod l' r') =
        (case ?S (filter (\<lambda>n. \<not> is_Symbol n) (explore_operator (Prod l' r'))) of
           (None, other_nodes) \<Rightarrow>
             (None, mk (other_nodes @ sort_key reorder (filter is_Symbol (explore_operator (Prod l' r')))))
         | (Some e, other_nodes) \<Rightarrow> (Some e, fst (put_back (Prod l' r') other_nodes)))"
      by (simp only: reassociate_node.simps Let_def)
    then have "?B ?P =
        (case ?S (filter (\<lambda>n. \<not> is_Symbol n) (explore_operator ?P)) of
           (None, other_nodes) \<Rightarrow>
             (None, mk (other_nodes @ sort_key reorder (filter is_Symbol (explore_operator ?P))))
         | (Some e, other_nodes) \<Rightarrow> (Some e, fst (put_back ?P other_nodes)))"
      by (simp only: lr)
    also have "\<dots> = (None, ?P)"
      using S' None by (simp only: P(2) f1 f2 sort_key_twice) simp
    finally show ?thesis by (simp only: B snd_conv)
  next
    case (Some x)
    let ?T = "fst (put_back (Prod l r) oth')"
    from S Some have B: "?B (Prod l r) = (Some x, ?T)" by (simp add: Let_def)
    have ex: "explore_Prod (Prod l r) = ?ch" by simp
    have len': "length (filter (\<lambda>x. \<not> is_Symbol x) (explore_Prod (Prod l r))) \<le> length oth'"
      using len by (simp only: ex)
    from put_back_leaves [OF oth len']
    have T: "filter (\<lambda>x. \<not> is_Symbol x) (explore_Prod ?T) = oth'" "is_Prod ?T"
      using len by (simp_all only: ex take_all order_refl is_Prod.simps)
    from T(2) obtain l' r' where lr: "?T = Prod l' r'" by (cases ?T) simp_all
    have exT: "explore_operator ?T = explore_Prod ?T" by (simp only: lr explore_operator.simps explore_Prod.simps)
    have "?B (Prod l' r') =
        (case ?S (filter (\<lambda>n. \<not> is_Symbol n) (explore_operator (Prod l' r'))) of
           (None, other_nodes) \<Rightarrow>
             (None, mk (other_nodes @ sort_key reorder (filter is_Symbol (explore_operator (Prod l' r')))))
         | (Some e, other_nodes) \<Rightarrow> (Some e, fst (put_back (Prod l' r') other_nodes)))"
      by (simp only: reassociate_node.simps Let_def)
    then have "?B ?T =
        (case ?S (filter (\<lambda>n. \<not> is_Symbol n) (explore_operator ?T)) of
           (None, other_nodes) \<Rightarrow>
             (None, mk (other_nodes @ sort_key reorder (filter is_Symbol (explore_operator ?T))))
         | (Some e, other_nodes) \<Rightarrow> (Some e, fst (put_back ?T other_nodes)))"
      by (simp only: lr)
    also have "\<dots> = (Some x, fst (put_back ?T oth'))"
      using S' Some by (simp only: exT T(1)) simp
    also have "put_back ?T oth' = (?T, [])"
      using put_back_same [of ?T "[]"] by (simp only: T(1) append_Nil2)
    finally show ?thesis by (simp only: B snd_conv fst_conv)
  qed
qed simp_all

lemma rvalue_set_rvalue: "rvalue (set_rvalue stmt r) = r"
  by (cases stmt) simp_all

lemma set_rvalue_twice: "set_rvalue (set_rvalue stmt r) r' = set_rvalue stmt r'"
  by (cases stmt) simp_all

text \<open>
  Claim C7. \<^verbatim>\<open>reassociate\<close> is idempotent: whatever the statement and the ordering key,
  a second call with the same key leaves the tree that the first call left, and ends as
  the first call did. This holds too when the calls raise on a node of an unknown class.
\<close>

theorem reassociate_idempotent:
  assumes "makes_Prod_chain mk"
  shows "reassociate reorder mk (snd (reassociate reorder mk stmt)) = reassociate reorder mk stmt"
proof -
  obtain e r where r: "reassociate_node reorder mk (rvalue stmt) = (e, r)"
    by (cases "reassociate_node reorder mk (rvalue stmt)") auto
  from reassociate_node_idem [OF assms, of reorder "rvalue stmt"] r
  have "reassociate_node reorder mk r = (e, r)" by simp
  with r show ?thesis by (simp add: reassociate_def rvalue_set_rvalue set_rvalue_twice)
qed

text \<open>
  The example of the docstring, \<^verbatim>\<open>a*b[i]*c[i][j]*d\<close>, and a statement on which both calls
  raise after the product has been reassociated.
\<close>

theorem reassociate_idempotent_witness:
  "makes_Prod_chain right_chain
   \<and> reassociate (\<lambda>n. length (rank n)) right_chain
       (Incr (Symbol (Str ''A'') [''i'', ''j''])
          (Prod (Prod (Prod (Symbol (Str ''a'') []) (Symbol (Str ''b'') [''i'']))
                      (Symbol (Str ''c'') [''i'', ''j'']))
                (Symbol (Str ''d'') [])))
     = (None, Incr (Symbol (Str ''A'') [''i'', ''j''])
          (Prod (Symbol (Str ''a'') [])
             (Prod (Symbol (Str ''d'') [])
                (Prod (Symbol (Str ''b'') [''i'']) (Symbol (Str ''c'') [''i'', ''j''])))))
   \<and> reassociate (\<lambda>n. length (rank n)) right_chain
       (Incr (Symbol (Str ''A'') [''i'', ''j''])
          (Prod (Symbol (Str ''a'') [])
             (Prod (Symbol (Str ''d'') [])
                (Prod (Symbol (Str ''b'') [''i'']) (Symbol (Str ''c'') [''i'', ''j''])))))
     = (None, Incr (Symbol (Str ''A'') [''i'', ''j''])
          (Prod (Symbol (Str ''a'') [])
             (Prod (Symbol (Str ''d'') [])
                (Prod (Symbol (Str ''b'') [''i'']) (Symbol (Str ''c'') [''i'', ''j''])))))
   \<and> reassociate (\<lambda>n. length (rank n)) right_chain
       (Incr (Symbol (Str ''A'') [''i''])
          (Sum (Prod (Symbol (Str ''b'') [''i'']) (Symbol (Str ''a'') []))
               (Neg (Symbol (Str ''c'') []))))
     = (Some NameError, Incr (Symbol (Str ''A'') [''i''])
          (Sum (Prod (Symbol (Str ''a'') []) (Symbol (Str ''b'') [''i'']))
               (Neg (Symbol (Str ''c'') []))))
   \<and> reassociate (\<lambda>n. length (rank n)) right_chain
       (Incr (Symbol (Str ''A'') [''i''])
          (Sum (Prod (Symbol (Str ''a'') []) (Symbol (Str ''b'') [''i'']))
               (Neg (Symbol (Str ''c'') []))))
     = (Some NameError, Incr (Symbol (Str ''A'') [''i''])
          (Sum (Prod (Symbol (Str ''a'') []) (Symbol (Str ''b'') [''i'']))
               (Neg (Symbol (Str ''c'') []))))"
proof -
  let ?s = "Incr (Symbol (Str ''A'') [''i'', ''j''])
          (Prod (Prod (Prod (Symbol (Str ''a'') []) (Symbol (Str ''b'') [''i'']))
                      (Symbol (Str ''c'') [''i'', ''j'']))
                (Symbol (Str ''d'') []))"
  let ?t = "Incr (Symbol (Str ''A'') [''i''])
          (Sum (Prod (Symbol (Str ''b'') [''i'']) (Symbol (Str ''a'') []))
               (Neg (Symbol (Str ''c'') [])))"
  have v: "reassociate (\<lambda>n. length (rank n)) right_chain ?s
     = (None, Incr (Symbol (Str ''A'') [''i'', ''j''])
          (Prod (Symbol (Str ''a'') [])
             (Prod (Symbol (Str ''d'') [])
                (Prod (Symbol (Str ''b'') [''i'']) (Symbol (Str ''c'') [''i'', ''j''])))))"
    by (simp add: reassociate_def)
  have w: "reassociate (\<lambda>n. length (rank n)) right_chain ?t
     = (Some NameError, Incr (Symbol (Str ''A'') [''i''])
          (Sum (Prod (Symbol (Str ''a'') []) (Symbol (Str ''b'') [''i'']))
               (Neg (Symbol (Str ''c'') []))))"
    by (simp add: reassociate_def)
  from reassociate_idempotent [OF makes_Prod_chain_right_chain, of "\<lambda>n. length (rank n)" ?s]
    reassociate_idempotent [OF makes_Prod_chain_right_chain, of "\<lambda>n. length (rank n)" ?t] v w
  show ?thesis using makes_Prod_chain_right_chain by simp
qed

section \<open>Divisions by a constant\<close>

text \<open>
  Modelled from the spec: \<^verbatim>\<open>FindInstances(Div).visit(node)[Div]\<close> (module \<^verbatim>\<open>visitors\<close>,
  not at hand), every \<^verbatim>\<open>Div\<close> node of a tree, those inside another \<^verbatim>\<open>Div\<close> included.
\<close>

fun find_Divs :: "node \<Rightarrow> node list" where
  "find_Divs (Symbol s r) = []"
| "find_Divs (Par c) = find_Divs c"
| "find_Divs (Sum l r) = find_Divs l @ find_Divs r"
| "find_Divs (Sub l r) = find_Divs l @ find_Divs r"
| "find_Divs (Prod l r) = find_Divs l @ find_Divs r"
| "find_Divs (Div l r) = Div l r # find_Divs l @ find_Divs r"
| "find_Divs (Neg c) = find_Divs c"
| "find_Divs (FunCall f args) = concat (map find_Divs args)"
| "find_Divs (Ternary c t f) = find_Divs c @ find_Divs t @ find_Divs f"

text \<open>
  \<^verbatim>\<open>str.isdigit()\<close> and \<^verbatim>\<open>float(s)\<close> on a string of decimal digits. A bare Python number
  that the source puts where a node is expected (\<^verbatim>\<open>1.0 / d\<close>, \<^verbatim>\<open>1.0\<close>) is modelled as
  the Symbol that holds it.
\<close>

definition isdigit :: "string \<Rightarrow> bool" where
  "isdigit s = (s \<noteq> [] \<and> list_all (\<lambda>c. c \<in> set ''0123456789'') s)"

definition float_of_digits :: "string \<Rightarrow> rat" where
  "float_of_digits s = of_nat (foldl (\<lambda>a c. 10 * a + (of_char c - 48)) 0 s)"

definition number :: "rat \<Rightarrow> node" where
  "number v = Symbol (Num v) []"

text \<open>
  The body of the loop of \<^verbatim>\<open>replacediv\<close>: what a division is to be replaced with, if it
  is. Python raises \<^verbatim>\<open>ZeroDivisionError\<close> on \<^verbatim>\<open>1.0 / 0\<close>.
\<close>

fun replacement :: "node \<Rightarrow> error + node option" where
  "replacement (Div l (Symbol (Num v) r)) =
     (if v = 0 then Inl ZeroDivisionError else Inr (Some (Prod l (number (1 / v)))))"
| "replacement (Div l (Symbol (Str s) r)) =
     (if isdigit s then
        (if float_of_digits s = 0 then Inl ZeroDivisionError
         else Inr (Some (Prod l (number (1 / float_of_digits s)))))
      else Inr (Some (Prod l (Div (number 1) (Symbol (Str s) r)))))"
| "replacement n = Inr None"

fun make_to_replace :: "node list \<Rightarrow> (node \<times> node) list \<Rightarrow> error + (node \<times> node) list" where
  "make_to_replace [] to_replace = Inr to_replace"
| "make_to_replace (i # divisions) to_replace =
     (case replacement i of
        Inl e \<Rightarrow> Inl e
      | Inr None \<Rightarrow> make_to_replace divisions to_replace
      | Inr (Some p) \<Rightarrow> make_to_replace divisions (to_replace @ [(i, p)]))"

text \<open>
  Modelled from the spec: \<^verbatim>\<open>ast_replace(node, to_replace, copy=True, mode='symbol')\<close>
  (module \<^verbatim>\<open>utils\<close> of the revision that \<^verbatim>\<open>rewriter.py\<close> imports), the "in-place
  child replacement": walking down from \<^verbatim>\<open>node\<close>, a child that is a key of
  \<^verbatim>\<open>to_replace\<close> is replaced with a copy of its value and not entered, any other child
  is entered. \<open>ast_replace_node m n\<close> is the node that stands afterwards where the child
  \<open>n\<close> stood. The keys are node objects; the model looks a node up by its value, which
  gives the same here, where the value of a key determines what replaces it.
\<close>

fun ast_replace_node :: "(node \<Rightarrow> node option) \<Rightarrow> node \<Rightarrow> node" where
  "ast_replace_node m (Symbol s r) =
     (case m (Symbol s r) of Some x \<Rightarrow> x | None \<Rightarrow> Symbol s r)"
| "ast_replace_node m (Par c) =
     (case m (Par c) of Some x \<Rightarrow> x | None \<Rightarrow> Par (ast_replace_node m c))"
| "ast_replace_node m (Sum l r) =
     (case m (Sum l r) of Some x \<Rightarrow> x
      | None \<Rightarrow> Sum (ast_replace_node m l) (ast_replace_node m r))"
| "ast_replace_node m (Sub l r) =
     (case m (Sub l r) of Some x \<Rightarrow> x
      | None \<Rightarrow> Sub (ast_replace_node m l) (ast_replace_node m r))"
| "ast_replace_node m (Prod l r) =
     (case m (Prod l r) of Some x \<Rightarrow> x
      | None \<Rightarrow> Prod (ast_replace_node m l) (ast_replace_node m r))"
| "ast_replace_node m (Div l r) =
     (case m (Div l r) of Some x \<Rightarrow> x
      | None \<Rightarrow> Div (ast_replace_node m l) (ast_replace_node m r))"
| "ast_replace_node m (Neg c) =
     (case m (Neg c) of Some x \<Rightarrow> x | None \<Rightarrow> Neg (ast_replace_node m c))"
| "ast_replace_node m (FunCall f args) =
     (case m (FunCall f args) of Some x \<Rightarrow> x
      | None \<Rightarrow> FunCall f (map (ast_replace_node m) args))"
| "ast_replace_node m (Ternary c t f) =
     (case m (Ternary c t f) of Some x \<Rightarrow> x
      | None \<Rightarrow> Ternary (ast_replace_node m c) (ast_replace_node m t) (ast_replace_node m f))"

fun ast_replace :: "(node \<Rightarrow> node option) \<Rightarrow> writer \<Rightarrow> writer" where
  "ast_replace m (Assign l r) = Assign (ast_replace_node m l) (ast_replace_node m r)"
| "ast_replace m (Incr l r) = Incr (ast_replace_node m l) (ast_replace_node m r)"
| "ast_replace m (Decr l r) = Decr (ast_replace_node m l) (ast_replace_node m r)"
| "ast_replace m (IMul l r) = IMul (ast_replace_node m l) (ast_replace_node m r)"
| "ast_replace m (IDiv l r) = IDiv (ast_replace_node m l) (ast_replace_node m r)"

text \<open>\<^verbatim>\<open>ExpressionRewriter.replacediv\<close>\<close>

definition replacediv :: "writer \<Rightarrow> error + writer" where
  "replacediv stmt =
     (let divisions = find_Divs (rvalue stmt) in
      case make_to_replace divisions [] of
        Inl e \<Rightarrow> Inl e
      | Inr to_replace \<Rightarrow> Inr (ast_replace (map_of to_replace) stmt))"

text \<open>
  What \<^verbatim>\<open>replacediv\<close> makes of a tree, by recursion on the tree: a division by a Symbol
  becomes a product, with the inverse of the number when the Symbol is a number or a string
  of digits, and with \<^verbatim>\<open>Div(1.0, d)\<close> otherwise; its dividend is taken as it is. A
  division by anything else stays a division, and its two operands are treated in turn.
\<close>

fun reciprocal :: "node \<Rightarrow> node" where
  "reciprocal (Symbol (Num v) r) = number (1 / v)"
| "reciprocal (Symbol (Str s) r) =
     (if isdigit s then number (1 / float_of_digits s) else Div (number 1) (Symbol (Str s) r))"
| "reciprocal n = Div (number 1) n"

fun zero_literal :: "node \<Rightarrow> bool" where
  "zero_literal (Symbol (Num v) r) = (v = 0)"
| "zero_literal (Symbol (Str s) r) = (isdigit s \<and> float_of_digits s = 0)"
| "zero_literal n = False"

fun zero_division :: "node \<Rightarrow> bool" where
  "zero_division (Div l r) = zero_literal r"
| "zero_division n = False"

fun div_to_prod :: "node \<Rightarrow> node" where
  "div_to_prod (Symbol s r) = Symbol s r"
| "div_to_prod (Par c) = Par (div_to_prod c)"
| "div_to_prod (Sum l r) = Sum (div_to_prod l) (div_to_prod r)"
| "div_to_prod (Sub l r) = Sub (div_to_prod l) (div_to_prod r)"
| "div_to_prod (Prod l r) = Prod (div_to_prod l) (div_to_prod r)"
| "div_to_prod (Div l r) =
     (if is_Symbol r then Prod l (reciprocal r) else Div (div_to_prod l) (div_to_prod r))"
| "div_to_prod (Neg c) = Neg (div_to_prod c)"
| "div_to_prod (FunCall f args) = FunCall f (map div_to_prod args)"
| "div_to_prod (Ternary c t f) = Ternary (div_to_prod c) (div_to_prod t) (div_to_prod f)"

lemma replacement_cases:
  "replacement n =
     (if zero_division n then Inl ZeroDivisionError
      else Inr (case n of Div l r \<Rightarrow> if is_Symbol r then Some (Prod l (reciprocal r)) else None
                | _ \<Rightarrow> None))"
  by (induction n rule: replacement.induct) auto

lemma make_to_replace_Inl:
  "(\<exists>e. make_to_replace ds acc = Inl e) \<longleftrightarrow> (\<exists>d \<in> set ds. zero_division d)"
  by (induction ds arbitrary: acc) (auto simp: replacement_cases split: node.splits)

lemma make_to_replace_error:
  "make_to_replace ds acc = Inl e \<Longrightarrow> e = ZeroDivisionError"
  by (induction ds arbitrary: acc) (auto simp: replacement_cases split: node.splits if_splits)

definition key_ok :: "(node \<times> node) list \<Rightarrow> bool" where
  "key_ok xs = (\<forall>(k, v) \<in> set xs. \<exists>l r. k = Div l r \<and> is_Symbol r \<and> v = Prod l (reciprocal r))"

lemma make_to_replace_Inr:
  "make_to_replace ds acc = Inr xs \<Longrightarrow> key_ok acc \<Longrightarrow>
     key_ok xs \<and> fst ` set xs = fst ` set acc \<union> {d \<in> set ds. \<exists>l r. d = Div l r \<and> is_Symbol r}"
proof (induction ds arbitrary: acc)
  case Nil
  then show ?case by simp
next
  case (Cons d ds)
  show ?case
  proof (cases "replacement d")
    case (Inl e)
    with Cons.prems show ?thesis by simp
  next
    case (Inr opt)
    show ?thesis
    proof (cases opt)
      case None
      with Inr Cons.prems have 1: "make_to_replace ds acc = Inr xs" by simp
      from None Inr have "\<not> (\<exists>l r. d = Div l r \<and> is_Symbol r)"
        by (auto simp: replacement_cases split: if_splits)
      with Cons.IH [OF 1 Cons.prems(2)] show ?thesis by auto
    next
      case (Some p)
      with Inr Cons.prems have 1: "make_to_replace ds (acc @ [(d, p)]) = Inr xs" by simp
      from Some Inr have 2: "\<exists>l r. d = Div l r \<and> is_Symbol r \<and> p = Prod l (reciprocal r)"
        by (auto simp: replacement_cases split: if_splits node.splits)
      then have "key_ok (acc @ [(d, p)])" using Cons.prems(2) by (auto simp: key_ok_def)
      from Cons.IH [OF 1 this] 2 show ?thesis by auto
    qed
  qed
qed

lemma key_ok_map_of:
  assumes "key_ok xs"
  shows "map_of xs n =
     (if n \<in> fst ` set xs then (case n of Div l r \<Rightarrow> Some (Prod l (reciprocal r)) | _ \<Rightarrow> None)
      else None)"
proof (cases "map_of xs n")
  case None
  then show ?thesis by (auto simp: map_of_eq_None_iff)
next
  case (Some v)
  then have "(n, v) \<in> set xs" by (rule map_of_SomeD)
  with assms obtain l r where "n = Div l r" "v = Prod l (reciprocal r)"
    by (auto simp: key_ok_def)
  with Some \<open>(n, v) \<in> set xs\<close> show ?thesis by force
qed

lemma ast_replace_node_div_to_prod:
  assumes m: "\<forall>n. m n = (if n \<in> K then (case n of Div l r \<Rightarrow> Some (Prod l (reciprocal r)) | _ \<Rightarrow> None) else None)"
    and K: "\<And>l r. Div l r \<in> K \<Longrightarrow> is_Symbol r"
  shows "(\<And>l r. Div l r \<in> set (find_Divs n) \<Longrightarrow> is_Symbol r \<Longrightarrow> Div l r \<in> K)
          \<Longrightarrow> ast_replace_node m n = div_to_prod n"
proof (induction n)
  case (Symbol s r)
  from m have "m (Symbol s r) = None" by simp
  then show ?case by simp
next
  case (Par c)
  from m have "m (Par c) = None" by simp
  with Par show ?case by simp
next
  case (Sum l r)
  from m have "m (Sum l r) = None" by simp
  moreover have "ast_replace_node m l = div_to_prod l" by (rule Sum.IH) (simp add: Sum.prems)
  moreover have "ast_replace_node m r = div_to_prod r" by (rule Sum.IH) (simp add: Sum.prems)
  ultimately show ?case by simp
next
  case (Sub l r)
  from m have "m (Sub l r) = None" by simp
  moreover have "ast_replace_node m l = div_to_prod l" by (rule Sub.IH) (simp add: Sub.prems)
  moreover have "ast_replace_node m r = div_to_prod r" by (rule Sub.IH) (simp add: Sub.prems)
  ultimately show ?case by simp
next
  case (Prod l r)
  from m have "m (Prod l r) = None" by simp
  moreover have "ast_replace_node m l = div_to_prod l" by (rule Prod.IH) (simp add: Prod.prems)
  moreover have "ast_replace_node m r = div_to_prod r" by (rule Prod.IH) (simp add: Prod.prems)
  ultimately show ?case by simp
next
  case (Neg c)
  from m have "m (Neg c) = None" by simp
  with Neg show ?case by simp
next
  case (Ternary c t f)
  from m have "m (Ternary c t f) = None" by simp
  moreover have "ast_replace_node m c = div_to_prod c" by (rule Ternary.IH) (simp add: Ternary.prems)
  moreover have "ast_replace_node m t = div_to_prod t" by (rule Ternary.IH) (simp add: Ternary.prems)
  moreover have "ast_replace_node m f = div_to_prod f" by (rule Ternary.IH) (simp add: Ternary.prems)
  ultimately show ?case by simp
next
  case (Div l r)
  show ?case
  proof (cases "is_Symbol r")
    case True
    with Div.prems have "Div l r \<in> K" by simp
    with m have "m (Div l r) = Some (Prod l (reciprocal r))" by simp
    with True show ?thesis by simp
  next
    case False
    then have "Div l r \<notin> K" using K by blast
    with m have "m (Div l r) = None" by simp
    moreover have "ast_replace_node m l = div_to_prod l" by (rule Div.IH) (simp add: Div.prems)
    moreover have "ast_replace_node m r = div_to_prod r" by (rule Div.IH) (simp add: Div.prems)
    ultimately show ?thesis using False by simp
  qed
next
  case (FunCall f args)
  from m have mN: "m (FunCall f args) = None" by simp
  have "map (ast_replace_node m) args = map div_to_prod args"
  proof (rule map_cong [OF refl])
    fix a assume a: "a \<in> set args"
    show "ast_replace_node m a = div_to_prod a"
    proof (rule FunCall.IH [OF a])
      fix l r assume "Div l r \<in> set (find_Divs a)" "is_Symbol r"
      with a show "Div l r \<in> K" using FunCall.prems [of l r] by auto
    qed
  qed
  with mN show ?case by simp
qed

lemma div_to_prod_Symbol: "is_Symbol n \<Longrightarrow> div_to_prod n = n"
  by (cases n) simp_all

text \<open>
  Claim C5, as the code has it. Unless a division of the right-hand side has a literal
  zero for divisor (then \<^verbatim>\<open>ZeroDivisionError\<close> is raised and nothing is rewritten),
  \<^verbatim>\<open>replacediv\<close> rewrites the right-hand side as \<open>div_to_prod\<close> says: \<^verbatim>\<open>Div(x, d)\<close> with
  \<^verbatim>\<open>d\<close> a numeric Symbol becomes \<^verbatim>\<open>Prod(x, 1/d)\<close>, with \<^verbatim>\<open>d\<close> another Symbol it becomes
  \<^verbatim>\<open>Prod(x, Div(1, d))\<close>, and a division whose divisor is not a Symbol is left a division.
\<close>

theorem replacediv_result:
  assumes "is_Symbol (lvalue stmt)"
  shows "replacediv stmt =
     (if \<exists>d \<in> set (find_Divs (rvalue stmt)). zero_division d then Inl ZeroDivisionError
      else Inr (set_rvalue stmt (div_to_prod (rvalue stmt))))"
proof (cases "make_to_replace (find_Divs (rvalue stmt)) []")
  case (Inl e)
  then have "e = ZeroDivisionError" by (rule make_to_replace_error)
  moreover from Inl have "\<exists>d \<in> set (find_Divs (rvalue stmt)). zero_division d"
    using make_to_replace_Inl [of "find_Divs (rvalue stmt)" "[]"] by simp
  ultimately show ?thesis using Inl by (simp add: replacediv_def)
next
  case (Inr xs)
  then have nz: "\<not> (\<exists>d \<in> set (find_Divs (rvalue stmt)). zero_division d)"
    using make_to_replace_Inl [of "find_Divs (rvalue stmt)" "[]"] by simp
  have k0: "key_ok []" by (simp add: key_ok_def)
  from make_to_replace_Inr [OF Inr k0]
  have ok: "key_ok xs"
    and keys: "fst ` set xs = {d \<in> set (find_Divs (rvalue stmt)). \<exists>l r. d = Div l r \<and> is_Symbol r}"
    by simp_all
  have m: "\<forall>n. map_of xs n = (if n \<in> fst ` set xs
            then (case n of Div l r \<Rightarrow> Some (Prod l (reciprocal r)) | _ \<Rightarrow> None) else None)"
    using key_ok_map_of [OF ok] by blast
  have K: "\<And>l r. Div l r \<in> fst ` set xs \<Longrightarrow> is_Symbol r" unfolding keys by blast
  have r: "ast_replace_node (map_of xs) (rvalue stmt) = div_to_prod (rvalue stmt)"
    using m K by (rule ast_replace_node_div_to_prod) (auto simp: keys)
  have l: "ast_replace_node (map_of xs) (lvalue stmt) = lvalue stmt"
  proof -
    from assms obtain s rk where s: "lvalue stmt = Symbol s rk" by (cases "lvalue stmt") auto
    from m have "map_of xs (Symbol s rk) = None" by simp
    with s show ?thesis by simp
  qed
  have "ast_replace (map_of xs) stmt = set_rvalue stmt (div_to_prod (rvalue stmt))"
    using l r by (cases stmt) simp_all
  with Inr nz show ?thesis by (simp add: replacediv_def)
qed

theorem replacediv_result_witness:
  "is_Symbol (lvalue (Incr (Symbol (Str ''A'') [''i''])
      (Sum (Div (Symbol (Str ''x'') [''i'']) (Symbol (Num 2) []))
           (Div (Symbol (Str ''y'') [''i'']) (Symbol (Str ''z'') [])))))
   \<and> replacediv (Incr (Symbol (Str ''A'') [''i''])
      (Sum (Div (Symbol (Str ''x'') [''i'']) (Symbol (Num 2) []))
           (Div (Symbol (Str ''y'') [''i'']) (Symbol (Str ''z'') []))))
     = Inr (Incr (Symbol (Str ''A'') [''i''])
      (Sum (Prod (Symbol (Str ''x'') [''i'']) (Symbol (Num (1 / 2)) []))
           (Prod (Symbol (Str ''y'') [''i''])
              (Div (Symbol (Num 1) []) (Symbol (Str ''z'') [])))))"
  using replacediv_result [of "Incr (Symbol (Str ''A'') [''i''])
      (Sum (Div (Symbol (Str ''x'') [''i'']) (Symbol (Num 2) []))
           (Div (Symbol (Str ''y'') [''i'']) (Symbol (Str ''z'') [])))"]
  by (simp add: number_def isdigit_def)

text \<open>
  The claim as the spec words it fails on \<^verbatim>\<open>x / (a + b)\<close>: the divisor is no literal and
  the division is left as it stands, since the source rewrites a division only when its
  divisor is a Symbol.
\<close>

theorem replacediv_counterexample:
  "replacediv (Assign (Symbol (Str ''A'') [])
      (Div (Symbol (Str ''x'') []) (Sum (Symbol (Str ''a'') []) (Symbol (Str ''b'') []))))
   = Inr (Assign (Symbol (Str ''A'') [])
      (Div (Symbol (Str ''x'') []) (Sum (Symbol (Str ''a'') []) (Symbol (Str ''b'') []))))"
  by (simp add: replacediv_def)

section \<open>The state of a rewrite session\<close>

text \<open>
  An \<^verbatim>\<open>ExpressionRewriter\<close> and the objects it shares with its hoister, its extractor and
  its expander, as one record. The statements, loops and blocks that lie outside the
  right-hand side being rewritten are objects that several places refer to (the registry
  of hoisted temporaries, the body of a loop): they live in stores, and are referred to by
  their address.

  Modelled from the spec: the registry entry "(defining statement, declaration, wrapping
  loop, placement block)" of \<^verbatim>\<open>StmtTracker\<close> (module \<^verbatim>\<open>ast_analyzer\<close>, not at hand), and
  \<^verbatim>\<open>Decl\<close>, \<^verbatim>\<open>For\<close>, \<^verbatim>\<open>Block\<close> of \<^verbatim>\<open>base\<close>, as far as the rewriter reads them.
\<close>

record decl =
  d_typ :: string
  d_sym :: node
  d_local :: bool

datatype item = IDecl decl | IStmt nat | ILoop nat | IFlat string

record loop =
  l_dim :: string
  l_body :: "item list"

record hinfo =
  h_stmt :: nat
  h_decl :: decl
  h_loop :: "nat option"
  h_place :: nat

text \<open>The markers \<^verbatim>\<open>EXT\<close> and \<^verbatim>\<open>STOP\<close> of \<^verbatim>\<open>ExpressionExtractor\<close>.\<close>

datatype kind = EXT | STOP

text \<open>
  The fields \<open>stmt\<close> to \<open>next_addr\<close> are the session (\<open>loops\<close> are the addresses of
  \<^verbatim>\<open>expr_info.loops\<close>, outermost first); \<open>ex_mode\<close> to \<open>counter\<close> belong to the
  extractor (\<^verbatim>\<open>mode\<close>, \<^verbatim>\<open>look_ahead\<close>, \<^verbatim>\<open>lda\<close>, \<^verbatim>\<open>extracted\<close>, \<^verbatim>\<open>counter\<close>); the others
  to the expander (\<^verbatim>\<open>should_expand\<close>, \<^verbatim>\<open>expanded_decls\<close>, the two dictionaries of its
  cache, \<^verbatim>\<open>expr_id\<close>). A loop dependence analysis gives, for a Symbol, the set of loop
  dimensions it depends on.
\<close>

record rewriter =
  stmt :: writer
  expr_info :: metaexpr
  loops :: "nat list"
  decls :: "sval \<Rightarrow> decl option"
  hoisted :: "(sval \<times> hinfo) list"
  expr_graph :: digraph
  stmt_store :: "nat \<Rightarrow> writer"
  loop_store :: "nat \<Rightarrow> loop"
  block_store :: "nat \<Rightarrow> item list"
  next_addr :: nat
  ex_mode :: string
  ex_look_ahead :: bool
  ex_lda :: "node \<Rightarrow> string set"
  extracted :: "(string list \<times> node list) list"
  counter :: nat
  should_expand :: "node \<Rightarrow> bool"
  expanded_decls :: "(sval \<times> decl) list"
  cache_map :: "((node \<times> node) \<times> node) list"
  cache_hits :: "node \<times> node \<Rightarrow> nat"
  expr_id :: nat

text \<open>\<^verbatim>\<open>ExpressionRewriter.__init__\<close> with no \<^verbatim>\<open>hoisted\<close> and no \<^verbatim>\<open>expr_graph\<close> given.\<close>

definition new_rewriter :: "writer \<Rightarrow> metaexpr \<Rightarrow> (sval \<Rightarrow> decl option) \<Rightarrow> rewriter" where
  "new_rewriter st info ds =
     \<lparr> stmt = st, expr_info = info, loops = [], decls = ds, hoisted = [],
       expr_graph = empty_graph, stmt_store = (\<lambda>a. st),
       loop_store = (\<lambda>a. \<lparr> l_dim = [], l_body = [] \<rparr>), block_store = (\<lambda>a. []),
       next_addr = 0, ex_mode = [], ex_look_ahead = False, ex_lda = (\<lambda>n. {}),
       extracted = [], counter = 0, should_expand = (\<lambda>n. False), expanded_decls = [],
       cache_map = [], cache_hits = (\<lambda>k. 0), expr_id = 0 \<rparr>"

section \<open>The extractor\<close>

text \<open>\<^verbatim>\<open>d.setdefault(k, []).append(v)\<close> on an ordered dictionary.\<close>

fun setdefault_append :: "('k \<times> 'v list) list \<Rightarrow> 'k \<Rightarrow> 'v \<Rightarrow> ('k \<times> 'v list) list" where
  "setdefault_append [] k v = [(k, [v])]"
| "setdefault_append ((k', vs) # kvs) k v =
     (if k' = k then (k', vs @ [v]) # kvs else (k', vs) # setdefault_append kvs k v)"

text \<open>
  \<^verbatim>\<open>sorted(dep, key=lambda i: self.expr_info.dims.index(i))\<close>. Every set that
  \<^verbatim>\<open>_extract\<close> hands to \<^verbatim>\<open>_try\<close> has been cut down to the dimensions of
  \<^verbatim>\<open>expr_info.dims\<close>, which are distinct, one for each loop: sorting the members of the
  set by their index lists the dimensions that are in the set.
\<close>

definition sorted_dep :: "string list \<Rightarrow> string set \<Rightarrow> string list" where
  "sorted_dep ds dep = filter (\<lambda>d. d \<in> dep) ds"

text \<open>\<^verbatim>\<open>ExpressionExtractor._try\<close>: the answer, and the extractor with what it recorded.\<close>

definition extractor_try :: "rewriter \<Rightarrow> node \<Rightarrow> string set \<Rightarrow> bool \<times> rewriter" where
  "extractor_try self n dep =
     (if is_Symbol n then (False, self)
      else
        (let should_extract =
           (if ex_mode self = ''aggressive'' then True
            else if ex_mode self = ''only_const'' then
              \<not> (dep \<noteq> {} \<and> dep \<subseteq> set (dims (expr_info self)))
            else if ex_mode self = ''only_domain'' then
              \<not> (dep \<subseteq> set (out_domain_dims (expr_info self)))
            else if ex_mode self = ''only_outdomain'' then
              dep \<subseteq> set (out_domain_dims (expr_info self))
            else True)
         in if should_extract \<or> ex_look_ahead self then
              (should_extract,
               self\<lparr> extracted :=
                 setdefault_append (extracted self) (sorted_dep (dims (expr_info self)) dep) n \<rparr>)
            else (should_extract, self)))"

text \<open>
  Three shapes that recur in the policies below:
  \<^verbatim>\<open>if not self._try(n, dep): return (dep_ret, self.EXT)\<close>, falling through to the final
  \<^verbatim>\<open>return (dep_n, self.STOP)\<close>; two calls of \<^verbatim>\<open>_try\<close> in a row; and
  \<^verbatim>\<open>self._try(a, dep_a) or self._try(b, dep_b)\<close>, whose second call is made only when
  the first answers no.
\<close>

definition try_or_EXT ::
  "rewriter \<Rightarrow> node \<Rightarrow> string set \<Rightarrow> string set \<Rightarrow> string set
     \<Rightarrow> (string set \<times> kind) \<times> rewriter" where
  "try_or_EXT self n dep dep_ret dep_n =
     (case extractor_try self n dep of
        (ok, s1) \<Rightarrow> if \<not> ok then ((dep_ret, EXT), s1) else ((dep_n, STOP), s1))"

definition try_both ::
  "rewriter \<Rightarrow> node \<Rightarrow> string set \<Rightarrow> node \<Rightarrow> string set \<Rightarrow> bool \<times> rewriter" where
  "try_both self a dep_a b dep_b =
     (case extractor_try self a dep_a of
        (ok_a, s1) \<Rightarrow>
          (case extractor_try s1 b dep_b of (ok_b, s2) \<Rightarrow> (ok_a \<or> ok_b, s2)))"

definition try_either ::
  "rewriter \<Rightarrow> node \<Rightarrow> string set \<Rightarrow> node \<Rightarrow> string set \<Rightarrow> bool \<times> rewriter" where
  "try_either self a dep_a b dep_b =
     (case extractor_try self a dep_a of
        (ok_a, s1) \<Rightarrow> if ok_a then (True, s1) else extractor_try s1 b dep_b)"

text \<open>The policies \<^verbatim>\<open>_soft\<close>, \<^verbatim>\<open>_normal\<close> and \<^verbatim>\<open>_aggressive\<close>.\<close>

definition extractor_soft ::
  "rewriter \<Rightarrow> node \<Rightarrow> node \<Rightarrow> string set \<Rightarrow> string set \<Rightarrow> string set \<Rightarrow> kind \<Rightarrow> kind
     \<Rightarrow> (string set \<times> kind) \<times> rewriter" where
  "extractor_soft self left right dep_l dep_r dep_n info_l info_r =
     (if info_l = EXT \<and> info_r = EXT then
        (if dep_l = dep_r then ((dep_l, EXT), self)
         else if dep_l \<subseteq> dep_r then try_or_EXT self right dep_r dep_n dep_n
         else if dep_r \<subseteq> dep_l then try_or_EXT self left dep_l dep_n dep_n
         else ((dep_n, STOP), snd (try_both self left dep_l right dep_r)))
      else if info_r = EXT then ((dep_n, STOP), snd (extractor_try self right dep_r))
      else if info_l = EXT then ((dep_n, STOP), snd (extractor_try self left dep_l))
      else ((dep_n, STOP), self))"

definition extractor_normal ::
  "rewriter \<Rightarrow> node \<Rightarrow> node \<Rightarrow> string set \<Rightarrow> string set \<Rightarrow> string set \<Rightarrow> kind \<Rightarrow> kind
     \<Rightarrow> (string set \<times> kind) \<times> rewriter" where
  "extractor_normal self left right dep_l dep_r dep_n info_l info_r =
     (if info_l = EXT \<and> info_r = EXT then
        (if dep_l = dep_r then ((dep_l, EXT), self)
         else if dep_l = {} then
           (if set (domain_dims (expr_info self)) \<inter> dep_r = {} then ((dep_r, EXT), self)
            else (case try_either self left dep_l right dep_r of
                    (ok, s1) \<Rightarrow> if \<not> ok then ((dep_r, EXT), s1) else ((dep_n, STOP), s1)))
         else if dep_r = {} then
           (if set (domain_dims (expr_info self)) \<inter> dep_l = {} then ((dep_l, EXT), self)
            else (case try_either self right dep_r left dep_l of
                    (ok, s1) \<Rightarrow> if \<not> ok then ((dep_l, EXT), s1) else ((dep_n, STOP), s1)))
         else if dep_l \<subseteq> dep_r then try_or_EXT self left dep_l dep_n dep_n
         else if dep_r \<subseteq> dep_l then try_or_EXT self right dep_r dep_n dep_n
         else ((dep_n, STOP), snd (try_both self left dep_l right dep_r)))
      else if info_r = EXT then ((dep_n, STOP), snd (extractor_try self right dep_r))
      else if info_l = EXT then ((dep_n, STOP), snd (extractor_try self left dep_l))
      else ((dep_n, STOP), self))"

definition extractor_aggressive ::
  "rewriter \<Rightarrow> node \<Rightarrow> node \<Rightarrow> string set \<Rightarrow> string set \<Rightarrow> string set \<Rightarrow> kind \<Rightarrow> kind
     \<Rightarrow> (string set \<times> kind) \<times> rewriter" where
  "extractor_aggressive self left right dep_l dep_r dep_n info_l info_r =
     (if info_l = EXT \<and> info_r = EXT then
        (if dep_l = dep_r then ((dep_l, EXT), self)
         else if dep_l = {} then ((dep_n, STOP), snd (extractor_try self right dep_r))
         else if dep_r = {} then ((dep_n, STOP), snd (extractor_try self left dep_l))
         else if dep_l \<subseteq> dep_r then try_or_EXT self left dep_l dep_n dep_n
         else if dep_r \<subseteq> dep_l then try_or_EXT self right dep_r dep_n dep_n
         else ((dep_n, EXT), self))
      else if info_r = EXT then ((dep_n, STOP), snd (extractor_try self right dep_r))
      else if info_l = EXT then ((dep_n, STOP), snd (extractor_try self left dep_l))
      else ((dep_n, STOP), self))"

text \<open>
  The last branch of \<^verbatim>\<open>_extract\<close>, after the two children have been visited: the
  dependencies are cut down to the dimensions of the expression, and the policy of the
  mode is applied; an unknown mode raises \<^verbatim>\<open>RuntimeError\<close>.
\<close>

definition extractor_binary ::
  "rewriter \<Rightarrow> node \<Rightarrow> node \<Rightarrow> string set \<times> kind \<Rightarrow> string set \<times> kind
     \<Rightarrow> (error + string set \<times> kind) \<times> rewriter" where
  "extractor_binary self left right el er =
     (let dep_l = fst el \<inter> set (dims (expr_info self));
          dep_r = fst er \<inter> set (dims (expr_info self));
          dep_n = dep_l \<union> dep_r
      in if ex_mode self \<in> set [''normal'', ''only_const'', ''only_outdomain''] then
           (case extractor_normal self left right dep_l dep_r dep_n (snd el) (snd er) of
              (res, s1) \<Rightarrow> (Inr res, s1))
         else if ex_mode self = ''only_domain'' then
           (case extractor_soft self left right dep_l dep_r dep_n (snd el) (snd er) of
              (res, s1) \<Rightarrow> (Inr res, s1))
         else if ex_mode self = ''aggressive'' then
           (case extractor_aggressive self left right dep_l dep_r dep_n (snd el) (snd er) of
              (res, s1) \<Rightarrow> (Inr res, s1))
         else (Inl RuntimeError, self))"

text \<open>Sequencing: an exception ends the run, with the state as it then is.\<close>

definition bind_res ::
  "('e + 'a) \<times> 's \<Rightarrow> ('a \<Rightarrow> 's \<Rightarrow> ('e + 'b) \<times> 's) \<Rightarrow> ('e + 'b) \<times> 's" where
  "bind_res m f = (case m of (Inl e, s) \<Rightarrow> (Inl e, s) | (Inr a, s) \<Rightarrow> f a s)"

text \<open>The dependencies and the marker of a \<^verbatim>\<open>FunCall\<close> or a \<^verbatim>\<open>Ternary\<close>.\<close>

definition combine_args :: "(string set \<times> kind) list \<Rightarrow> string set \<times> kind" where
  "combine_args arg_deps =
     (\<Union> (set (map fst arg_deps)), if list_all (\<lambda>a. snd a = EXT) arg_deps then EXT else STOP)"

text \<open>
  \<^verbatim>\<open>ExpressionExtractor._extract\<close>. \<^verbatim>\<open>left, right = node.children\<close> in its last branch
  raises \<^verbatim>\<open>ValueError\<close> on a node with one child.
\<close>

fun extractor_extract :: "rewriter \<Rightarrow> node \<Rightarrow> (error + string set \<times> kind) \<times> rewriter"
  and extractor_extract_list ::
    "rewriter \<Rightarrow> node list \<Rightarrow> (error + (string set \<times> kind) list) \<times> rewriter" where
  "extractor_extract self (Symbol s r) = (Inr (ex_lda self (Symbol s r), EXT), self)"
| "extractor_extract self (Par c) = extractor_extract self c"
| "extractor_extract self (FunCall f args) =
     bind_res (extractor_extract_list self args)
       (\<lambda>arg_deps s1. (Inr (combine_args arg_deps), s1))"
| "extractor_extract self (Ternary c t f) =
     bind_res (extractor_extract self c) (\<lambda>ec s1.
     bind_res (extractor_extract s1 t) (\<lambda>et s2.
     bind_res (extractor_extract s2 f) (\<lambda>ef s3.
       (Inr (combine_args [ec, et, ef]), s3))))"
| "extractor_extract self (Sum l r) =
     bind_res (extractor_extract self l) (\<lambda>el s1.
     bind_res (extractor_extract s1 r) (\<lambda>er s2. extractor_binary s2 l r el er))"
| "extractor_extract self (Sub l r) =
     bind_res (extractor_extract self l) (\<lambda>el s1.
     bind_res (extractor_extract s1 r) (\<lambda>er s2. extractor_binary s2 l r el er))"
| "extractor_extract self (Prod l r) =
     bind_res (extractor_extract self l) (\<lambda>el s1.
     bind_res (extractor_extract s1 r) (\<lambda>er s2. extractor_binary s2 l r el er))"
| "extractor_extract self (Div l r) =
     bind_res (extractor_extract self l) (\<lambda>el s1.
     bind_res (extractor_extract s1 r) (\<lambda>er s2. extractor_binary s2 l r el er))"
| "extractor_extract self (Neg c) = (Inl ValueError, self)"
| "extractor_extract_list self [] = (Inr [], self)"
| "extractor_extract_list self (n # ns) =
     bind_res (extractor_extract self n) (\<lambda>a s1.
     bind_res (extractor_extract_list s1 ns) (\<lambda>as s2. (Inr (a # as), s2)))"

text \<open>\<^verbatim>\<open>ExpressionExtractor.__call__\<close>\<close>

definition extractor_call ::
  "rewriter \<Rightarrow> string \<Rightarrow> bool \<Rightarrow> (node \<Rightarrow> string set)
     \<Rightarrow> (error + (string list \<times> node list) list) \<times> rewriter" where
  "extractor_call self mode look_ahead lda =
     (let s0 = self\<lparr> ex_mode := mode, ex_look_ahead := look_ahead, ex_lda := lda,
                     extracted := [] \<rparr>
      in bind_res (extractor_extract s0 (rvalue (stmt s0)))
           (\<lambda>res s1. (Inr (extracted s1), s1\<lparr> counter := counter s1 + 1 \<rparr>)))"

text \<open>
  \<^verbatim>\<open>ExpressionHoister.extract\<close> and \<^verbatim>\<open>ExpressionRewriter.licm\<close>. The loop dependence
  analysis of the header, \<^verbatim>\<open>ldanalysis(self.header, value='dim')\<close>, is not at hand: it is
  the parameter \<open>ldanalysis\<close>. The branch of \<^verbatim>\<open>licm\<close> taken without \<^verbatim>\<open>look_ahead\<close>
  (reassociation in mode \<^verbatim>\<open>aggressive\<close>, then \<^verbatim>\<open>ExpressionHoister.licm\<close>) is the
  parameter \<open>hoist\<close>.
\<close>

record licm_kwargs =
  kw_look_ahead :: bool
  kw_lda :: "(node \<Rightarrow> string set) option"

definition hoister_extract ::
  "(rewriter \<Rightarrow> node \<Rightarrow> string set) \<Rightarrow> rewriter \<Rightarrow> string \<Rightarrow> licm_kwargs
     \<Rightarrow> (error + (string list \<times> node list) list) \<times> rewriter" where
  "hoister_extract ldanalysis self mode kwargs =
     (let lda = (case kw_lda kwargs of Some l \<Rightarrow> l | None \<Rightarrow> ldanalysis self)
      in extractor_call self mode True lda)"

datatype licm_result = Extracted "(string list \<times> node list) list" | Self

definition licm ::
  "(rewriter \<Rightarrow> node \<Rightarrow> string set) \<Rightarrow> (string \<Rightarrow> licm_kwargs \<Rightarrow> rewriter \<Rightarrow> error + rewriter)
     \<Rightarrow> rewriter \<Rightarrow> string \<Rightarrow> licm_kwargs \<Rightarrow> (error + licm_result) \<times> rewriter" where
  "licm ldanalysis hoist self mode kwargs =
     (if kw_look_ahead kwargs then
        bind_res (hoister_extract ldanalysis self mode kwargs) (\<lambda>m s1. (Inr (Extracted m), s1))
      else
        (case hoist mode kwargs self of
           Inl e \<Rightarrow> (Inl e, self)
         | Inr s1 \<Rightarrow> (Inr Self, s1)))"

text \<open>What the extractor leaves alone, gathered to be carried through the induction.\<close>

record frame =
  f_stmt :: writer
  f_expr_info :: metaexpr
  f_loops :: "nat list"
  f_decls :: "sval \<Rightarrow> decl option"
  f_hoisted :: "(sval \<times> hinfo) list"
  f_expr_graph :: digraph
  f_stmt_store :: "nat \<Rightarrow> writer"
  f_loop_store :: "nat \<Rightarrow> loop"
  f_block_store :: "nat \<Rightarrow> item list"
  f_mode :: string
  f_look_ahead :: bool
  f_lda :: "node \<Rightarrow> string set"

definition frame :: "rewriter \<Rightarrow> frame" where
  "frame self =
     \<lparr> f_stmt = stmt self, f_expr_info = expr_info self, f_loops = loops self,
       f_decls = decls self, f_hoisted = hoisted self, f_expr_graph = expr_graph self,
       f_stmt_store = stmt_store self, f_loop_store = loop_store self,
       f_block_store = block_store self, f_mode = ex_mode self,
       f_look_ahead = ex_look_ahead self, f_lda = ex_lda self \<rparr>"

lemma frame_try: "extractor_try self n dep = (ok, s1) \<Longrightarrow> frame s1 = frame self"
  by (auto simp: extractor_try_def frame_def Let_def split: if_splits)

lemma frame_try_snd: "frame (snd (extractor_try self n dep)) = frame self"
  using frame_try [of self n dep] by (cases "extractor_try self n dep") simp

lemma frame_try_or_EXT: "try_or_EXT self n dep dr dn = (res, s1) \<Longrightarrow> frame s1 = frame self"
  by (auto simp: try_or_EXT_def split: prod.splits if_splits dest: frame_try)

lemma frame_try_both: "try_both self a da b db = (ok, s1) \<Longrightarrow> frame s1 = frame self"
  by (auto simp: try_both_def split: prod.splits dest!: frame_try)

lemma frame_try_both_snd: "frame (snd (try_both self a da b db)) = frame self"
  using frame_try_both [of self a da b db] by (cases "try_both self a da b db") simp

lemma frame_try_either: "try_either self a da b db = (ok, s1) \<Longrightarrow> frame s1 = frame self"
  by (auto simp: try_either_def split: prod.splits if_splits dest!: frame_try)

lemma frame_soft:
  "extractor_soft self l r dl dr dn il ir = (res, s1) \<Longrightarrow> frame s1 = frame self"
  by (auto simp: extractor_soft_def frame_try_snd frame_try_both_snd
      split: if_splits dest: frame_try_or_EXT)

lemma frame_normal:
  "extractor_normal self l r dl dr dn il ir = (res, s1) \<Longrightarrow> frame s1 = frame self"
  by (auto simp: extractor_normal_def frame_try_snd frame_try_both_snd
      split: if_splits prod.splits dest: frame_try_or_EXT frame_try_either)

lemma frame_aggressive:
  "extractor_aggressive self l r dl dr dn il ir = (res, s1) \<Longrightarrow> frame s1 = frame self"
  by (auto simp: extractor_aggressive_def frame_try_snd
      split: if_splits dest: frame_try_or_EXT)

lemma frame_binary:
  "extractor_binary self l r el er = (res, s1) \<Longrightarrow> frame s1 = frame self"
  by (auto simp: extractor_binary_def Let_def
      split: if_splits prod.splits dest: frame_normal frame_soft frame_aggressive)

lemma bind_resE:
  assumes "bind_res m f = (res, s')"
  obtains e where "m = (Inl e, s')" "res = Inl e"
    | a s1 where "m = (Inr a, s1)" "f a s1 = (res, s')"
  using assms by (auto simp: bind_res_def split: prod.splits sum.splits)

lemma frame_extract:
  "extractor_extract self n = (res, s1) \<Longrightarrow> frame s1 = frame self"
  and frame_extract_list:
  "extractor_extract_list self ns = (ress, s2) \<Longrightarrow> frame s2 = frame self"
proof (induction self n and self ns arbitrary: res s1 and ress s2
    rule: extractor_extract_extractor_extract_list.induct)
  case (1 self s r)
  then show ?case by auto
next
  case (2 self c)
  then show ?case by auto
next
  case (3 self f args)
  then show ?case by (auto elim!: bind_resE)
next
  case (4 self c t f)
  from "4.prems" show ?case
    by (auto elim!: bind_resE dest!: "4.IH")
next
  case (5 self l r)
  from "5.prems" show ?case
    by (auto elim!: bind_resE dest!: frame_binary "5.IH")
next
  case (6 self l r)
  from "6.prems" show ?case
    by (auto elim!: bind_resE dest!: frame_binary "6.IH")
next
  case (7 self l r)
  from "7.prems" show ?case
    by (auto elim!: bind_resE dest!: frame_binary "7.IH")
next
  case (8 self l r)
  from "8.prems" show ?case
    by (auto elim!: bind_resE dest!: frame_binary "8.IH")
next
  case (9 self c)
  then show ?case by auto
next
  case (10 self)
  then show ?case by auto
next
  case (11 self n ns)
  from "11.prems" show ?case
    by (auto elim!: bind_resE dest!: "11.IH")
qed


fun no_Neg :: "node \<Rightarrow> bool" where
  "no_Neg (Symbol s r) = True"
| "no_Neg (Par c) = no_Neg c"
| "no_Neg (Sum l r) = (no_Neg l \<and> no_Neg r)"
| "no_Neg (Sub l r) = (no_Neg l \<and> no_Neg r)"
| "no_Neg (Prod l r) = (no_Neg l \<and> no_Neg r)"
| "no_Neg (Div l r) = (no_Neg l \<and> no_Neg r)"
| "no_Neg (Neg c) = False"
| "no_Neg (FunCall f args) = list_all no_Neg args"
| "no_Neg (Ternary c t f) = (no_Neg c \<and> no_Neg t \<and> no_Neg f)"

definition licm_modes :: "string list" where
  "licm_modes = [''normal'', ''aggressive'', ''only_const'', ''only_domain'', ''only_outdomain'']"

lemma frame_mode: "frame s1 = frame self \<Longrightarrow> ex_mode s1 = ex_mode self"
  by (simp add: frame_def)

lemma binary_returns:
  "ex_mode self \<in> set licm_modes \<Longrightarrow> \<exists>res s1. extractor_binary self l r el er = (Inr res, s1)"
  by (auto simp: extractor_binary_def licm_modes_def Let_def split: prod.splits)

lemma extract_returns:
  "ex_mode self \<in> set licm_modes \<Longrightarrow> no_Neg n
     \<Longrightarrow> \<exists>res s1. extractor_extract self n = (Inr res, s1)"
  and extract_list_returns:
  "ex_mode self \<in> set licm_modes \<Longrightarrow> list_all no_Neg ns
     \<Longrightarrow> \<exists>ress s2. extractor_extract_list self ns = (Inr ress, s2)"
proof (induction self n and self ns rule: extractor_extract_extractor_extract_list.induct)
  case (3 self f args)
  then obtain ress s2 where "extractor_extract_list self args = (Inr ress, s2)" by auto
  then show ?case by (simp add: bind_res_def)
next
  case (4 self c t f)
  from 4 obtain ec s1 where c: "extractor_extract self c = (Inr ec, s1)" by auto
  then have m1: "ex_mode s1 \<in> set licm_modes" using 4(4) frame_extract frame_mode by metis
  from 4(2) [OF m1] 4(5) obtain et s2 where t: "extractor_extract s1 t = (Inr et, s2)" by auto
  then have m2: "ex_mode s2 \<in> set licm_modes" using m1 frame_extract frame_mode by metis
  from 4(3) [OF m2] 4(5) obtain ef s3 where f: "extractor_extract s2 f = (Inr ef, s3)" by auto
  from c t f show ?case by (simp add: bind_res_def)
next
  case (5 self l r)
  from 5 obtain el s1 where l: "extractor_extract self l = (Inr el, s1)" by auto
  then have m1: "ex_mode s1 \<in> set licm_modes" using 5(3) frame_extract frame_mode by metis
  from 5(2) [OF m1] 5(4) obtain er s2 where r: "extractor_extract s1 r = (Inr er, s2)" by auto
  then have m2: "ex_mode s2 \<in> set licm_modes" using m1 frame_extract frame_mode by metis
  from binary_returns [OF m2] l r show ?case by (simp add: bind_res_def)
next
  case (6 self l r)
  from 6 obtain el s1 where l: "extractor_extract self l = (Inr el, s1)" by auto
  then have m1: "ex_mode s1 \<in> set licm_modes" using 6(3) frame_extract frame_mode by metis
  from 6(2) [OF m1] 6(4) obtain er s2 where r: "extractor_extract s1 r = (Inr er, s2)" by auto
  then have m2: "ex_mode s2 \<in> set licm_modes" using m1 frame_extract frame_mode by metis
  from binary_returns [OF m2] l r show ?case by (simp add: bind_res_def)
next
  case (7 self l r)
  from 7 obtain el s1 where l: "extractor_extract self l = (Inr el, s1)" by auto
  then have m1: "ex_mode s1 \<in> set licm_modes" using 7(3) frame_extract frame_mode by metis
  from 7(2) [OF m1] 7(4) obtain er s2 where r: "extractor_extract s1 r = (Inr er, s2)" by auto
  then have m2: "ex_mode s2 \<in> set licm_modes" using m1 frame_extract frame_mode by metis
  from binary_returns [OF m2] l r show ?case by (simp add: bind_res_def)
next
  case (8 self l r)
  from 8 obtain el s1 where l: "extractor_extract self l = (Inr el, s1)" by auto
  then have m1: "ex_mode s1 \<in> set licm_modes" using 8(3) frame_extract frame_mode by metis
  from 8(2) [OF m1] 8(4) obtain er s2 where r: "extractor_extract s1 r = (Inr er, s2)" by auto
  then have m2: "ex_mode s2 \<in> set licm_modes" using m1 frame_extract frame_mode by metis
  from binary_returns [OF m2] l r show ?case by (simp add: bind_res_def)
next
  case (11 self n ns)
  from 11 obtain a s1 where n: "extractor_extract self n = (Inr a, s1)" by auto
  then have m1: "ex_mode s1 \<in> set licm_modes" using 11(3) frame_extract frame_mode by metis
  from 11(2) [OF m1] 11(4) obtain as s2 where ns: "extractor_extract_list s1 ns = (Inr as, s2)"
    by auto
  from n ns show ?case by (simp add: bind_res_def)
qed auto

subsection \<open>What a call with \<^verbatim>\<open>look_ahead\<close> records\<close>

text \<open>
  The variable \<^verbatim>\<open>should_extract\<close> of \<^verbatim>\<open>_try\<close>: the test that the mode makes on the
  dependencies of a node that is not a Symbol.
\<close>

definition should_extract :: "string \<Rightarrow> metaexpr \<Rightarrow> string set \<Rightarrow> bool" where
  "should_extract mode info dep =
     (if mode = ''aggressive'' then True
      else if mode = ''only_const'' then \<not> (dep \<noteq> {} \<and> dep \<subseteq> set (dims info))
      else if mode = ''only_domain'' then \<not> dep \<subseteq> set (out_domain_dims info)
      else if mode = ''only_outdomain'' then dep \<subseteq> set (out_domain_dims info)
      else True)"

text \<open>
  The dimensions of the expression that a subtree depends on: those that the loop dependence
  analysis gives for its Symbols.
\<close>

definition node_dep :: "(node \<Rightarrow> string set) \<Rightarrow> metaexpr \<Rightarrow> node \<Rightarrow> string set" where
  "node_dep lda info n = (\<Union>s \<in> set (find_symbols n). lda s) \<inter> set (dims info)"

text \<open>
  The extractor as the same calls of \<^verbatim>\<open>_try\<close> leave it when \<^verbatim>\<open>look_ahead\<close> is not set:
  the entries whose key the mode accepts. It relates a run with \<^verbatim>\<open>look_ahead\<close> to the run
  that \<^verbatim>\<open>ExpressionHoister.licm\<close> makes, \<^verbatim>\<open>self.extractor(mode, False, lda)\<close>.
\<close>

definition without_look_ahead :: "rewriter \<Rightarrow> rewriter" where
  "without_look_ahead s =
     s\<lparr> ex_look_ahead := False,
        extracted := filter (\<lambda>kv. should_extract (ex_mode s) (expr_info s) (set (fst kv)))
                       (extracted s) \<rparr>"

text \<open>
  Every subtree of the map is filed under the tuple of the dimensions it depends on, and
  none is a Symbol.
\<close>

definition keyed :: "(node \<Rightarrow> string set) \<Rightarrow> metaexpr \<Rightarrow> (string list \<times> node list) list \<Rightarrow> bool" where
  "keyed lda info m =
     (\<forall>kv \<in> set m. \<forall>x \<in> set (snd kv).
        \<not> is_Symbol x \<and> fst kv = sorted_dep (dims info) (node_dep lda info x))"

lemma set_sorted_dep: "dep \<subseteq> set ds \<Longrightarrow> set (sorted_dep ds dep) = dep"
  by (auto simp: sorted_dep_def)

lemma filter_setdefault_append:
  "filter (\<lambda>kv. P (fst kv)) (setdefault_append m k x)
     = (if P k then setdefault_append (filter (\<lambda>kv. P (fst kv)) m) k x
        else filter (\<lambda>kv. P (fst kv)) m)"
  by (induction m) auto

lemma try_look_ahead:
  "ex_look_ahead s \<Longrightarrow> \<not> is_Symbol n \<Longrightarrow>
     extractor_try s n dep
       = (should_extract (ex_mode s) (expr_info s) dep,
          s\<lparr> extracted := setdefault_append (extracted s)
                             (sorted_dep (dims (expr_info s)) dep) n \<rparr>)"
  by (simp add: extractor_try_def should_extract_def Let_def)

lemma try_no_look_ahead:
  "\<not> ex_look_ahead s \<Longrightarrow> \<not> is_Symbol n \<Longrightarrow>
     extractor_try s n dep
       = (should_extract (ex_mode s) (expr_info s) dep,
          if should_extract (ex_mode s) (expr_info s) dep
          then s\<lparr> extracted := setdefault_append (extracted s)
                             (sorted_dep (dims (expr_info s)) dep) n \<rparr>
          else s)"
  by (simp add: extractor_try_def should_extract_def Let_def)

lemma sim_try:
  assumes "ex_look_ahead s" and "dep \<subseteq> set (dims (expr_info s))"
    and "extractor_try s n dep = (ok, s1)"
  shows "extractor_try (without_look_ahead s) n dep = (ok, without_look_ahead s1)"
proof (cases "is_Symbol n")
  case True
  with assms(3) show ?thesis by (auto simp: extractor_try_def)
next
  case False
  have k: "set (sorted_dep (dims (expr_info s)) dep) = dep"
    using assms(2) by (rule set_sorted_dep)
  from assms(1,3) False have ok: "ok = should_extract (ex_mode s) (expr_info s) dep"
    and s1: "s1 = s\<lparr> extracted := setdefault_append (extracted s)
                             (sorted_dep (dims (expr_info s)) dep) n \<rparr>"
    by (simp_all add: try_look_ahead)
  have nl: "\<not> ex_look_ahead (without_look_ahead s)" by (simp add: without_look_ahead_def)
  note f = filter_setdefault_append
    [of "\<lambda>k. should_extract (ex_mode s) (expr_info s) (set k)" "extracted s"
        "sorted_dep (dims (expr_info s)) dep" n]
  show ?thesis
    unfolding try_no_look_ahead [OF nl False]
    by (simp add: without_look_ahead_def ok s1 f k)
qed

lemma wla_fields [simp]:
  "ex_mode (without_look_ahead s) = ex_mode s"
  "expr_info (without_look_ahead s) = expr_info s"
  "ex_lda (without_look_ahead s) = ex_lda s"
  "stmt (without_look_ahead s) = stmt s"
  by (simp_all add: without_look_ahead_def)

lemma look_ahead_try: "extractor_try s n dep = (ok, s1) \<Longrightarrow> ex_look_ahead s1 = ex_look_ahead s"
  by (drule frame_try) (simp add: frame_def)

lemma sim_try_or_EXT:
  assumes "ex_look_ahead s" and "dep \<subseteq> set (dims (expr_info s))"
    and "try_or_EXT s n dep dr dn = (res, s1)"
  shows "try_or_EXT (without_look_ahead s) n dep dr dn = (res, without_look_ahead s1)"
proof -
  obtain ok s' where t: "extractor_try s n dep = (ok, s')" by (cases "extractor_try s n dep") auto
  from sim_try [OF assms(1,2) t] t assms(3) show ?thesis
    by (auto simp: try_or_EXT_def split: if_splits)
qed

lemma sim_try_both:
  assumes "ex_look_ahead s" and "da \<subseteq> set (dims (expr_info s))" "db \<subseteq> set (dims (expr_info s))"
    and "try_both s a da b db = (ok, s1)"
  shows "try_both (without_look_ahead s) a da b db = (ok, without_look_ahead s1)"
proof -
  obtain oa sa where a: "extractor_try s a da = (oa, sa)" by (cases "extractor_try s a da") auto
  obtain ob sb where b: "extractor_try sa b db = (ob, sb)" by (cases "extractor_try sa b db") auto
  from a have fa: "frame sa = frame s" by (rule frame_try)
  then have la: "ex_look_ahead sa" and ia: "expr_info sa = expr_info s"
    using assms(1) by (simp_all add: frame_def)
  from sim_try [OF assms(1,2) a] sim_try [OF la _ b] assms(3,4) ia a b show ?thesis
    by (auto simp: try_both_def)
qed

lemma sim_try_either:
  assumes "ex_look_ahead s" and "da \<subseteq> set (dims (expr_info s))" "db \<subseteq> set (dims (expr_info s))"
    and "try_either s a da b db = (ok, s1)"
  shows "try_either (without_look_ahead s) a da b db = (ok, without_look_ahead s1)"
proof -
  obtain oa sa where a: "extractor_try s a da = (oa, sa)" by (cases "extractor_try s a da") auto
  obtain ob sb where b: "extractor_try sa b db = (ob, sb)" by (cases "extractor_try sa b db") auto
  from a have fa: "frame sa = frame s" by (rule frame_try)
  then have la: "ex_look_ahead sa" and ia: "expr_info sa = expr_info s"
    using assms(1) by (simp_all add: frame_def)
  from sim_try [OF assms(1,2) a] sim_try [OF la _ b] assms(3,4) ia a b show ?thesis
    by (auto simp: try_either_def split: if_splits)
qed

lemma sim_try_eq:
  assumes "ex_look_ahead s" and "dep \<subseteq> set (dims (expr_info s))"
  shows "extractor_try (without_look_ahead s) n dep = apsnd without_look_ahead (extractor_try s n dep)"
  using sim_try [OF assms, of n "fst (extractor_try s n dep)" "snd (extractor_try s n dep)"]
  by (simp add: apsnd_def map_prod_def split: prod.splits)

lemma sim_try_or_EXT_eq:
  assumes "ex_look_ahead s" and "dep \<subseteq> set (dims (expr_info s))"
  shows "try_or_EXT (without_look_ahead s) n dep dr dn
           = apsnd without_look_ahead (try_or_EXT s n dep dr dn)"
  using sim_try_or_EXT [OF assms, of n dr dn "fst (try_or_EXT s n dep dr dn)"
      "snd (try_or_EXT s n dep dr dn)"]
  by (simp add: apsnd_def map_prod_def split: prod.splits)

lemma sim_try_both_eq:
  assumes "ex_look_ahead s" and "da \<subseteq> set (dims (expr_info s))" "db \<subseteq> set (dims (expr_info s))"
  shows "try_both (without_look_ahead s) a da b db
           = apsnd without_look_ahead (try_both s a da b db)"
  using sim_try_both [OF assms, of a b "fst (try_both s a da b db)" "snd (try_both s a da b db)"]
  by (simp add: apsnd_def map_prod_def split: prod.splits)

lemma sim_try_either_eq:
  assumes "ex_look_ahead s" and "da \<subseteq> set (dims (expr_info s))" "db \<subseteq> set (dims (expr_info s))"
  shows "try_either (without_look_ahead s) a da b db
           = apsnd without_look_ahead (try_either s a da b db)"
  using sim_try_either [OF assms, of a b "fst (try_either s a da b db)"
      "snd (try_either s a da b db)"]
  by (simp add: apsnd_def map_prod_def split: prod.splits)

lemma sim_soft:
  assumes "ex_look_ahead s" and "dl \<subseteq> set (dims (expr_info s))" "dr \<subseteq> set (dims (expr_info s))"
  shows "extractor_soft (without_look_ahead s) l r dl dr dn il ir
           = apsnd without_look_ahead (extractor_soft s l r dl dr dn il ir)"
  by (simp add: extractor_soft_def sim_try_eq [OF assms(1)] sim_try_or_EXT_eq [OF assms(1)]
      sim_try_both_eq [OF assms(1)] assms(2,3))

lemma sim_normal:
  assumes "ex_look_ahead s" and "dl \<subseteq> set (dims (expr_info s))" "dr \<subseteq> set (dims (expr_info s))"
  shows "extractor_normal (without_look_ahead s) l r dl dr dn il ir
           = apsnd without_look_ahead (extractor_normal s l r dl dr dn il ir)"
  by (simp add: extractor_normal_def sim_try_eq [OF assms(1)] sim_try_or_EXT_eq [OF assms(1)]
      sim_try_both_eq [OF assms(1)] sim_try_either_eq [OF assms(1)] assms(2,3)
      split: prod.splits)

lemma sim_aggressive:
  assumes "ex_look_ahead s" and "dl \<subseteq> set (dims (expr_info s))" "dr \<subseteq> set (dims (expr_info s))"
  shows "extractor_aggressive (without_look_ahead s) l r dl dr dn il ir
           = apsnd without_look_ahead (extractor_aggressive s l r dl dr dn il ir)"
  by (simp add: extractor_aggressive_def sim_try_eq [OF assms(1)] sim_try_or_EXT_eq [OF assms(1)]
      assms(2,3))

lemma sim_binary:
  assumes "ex_look_ahead s"
  shows "extractor_binary (without_look_ahead s) l r el er
           = apsnd without_look_ahead (extractor_binary s l r el er)"
  by (simp add: extractor_binary_def Let_def sim_normal [OF assms] sim_soft [OF assms]
      sim_aggressive [OF assms] split: prod.splits)


lemma look_ahead_extract:
  "extractor_extract s n = (res, s1) \<Longrightarrow> ex_look_ahead s1 = ex_look_ahead s"
  by (drule frame_extract) (simp add: frame_def)

lemma look_ahead_extract_list:
  "extractor_extract_list s ns = (res, s1) \<Longrightarrow> ex_look_ahead s1 = ex_look_ahead s"
  by (drule frame_extract_list) (simp add: frame_def)

lemma sim_binary_node:
  assumes la: "ex_look_ahead s"
    and ihl: "\<And>res s1. extractor_extract s l = (res, s1)
               \<Longrightarrow> extractor_extract (without_look_ahead s) l = (res, without_look_ahead s1)"
    and ihr: "\<And>sa res s1. ex_look_ahead sa \<Longrightarrow> extractor_extract sa r = (res, s1)
               \<Longrightarrow> extractor_extract (without_look_ahead sa) r = (res, without_look_ahead s1)"
    and run: "bind_res (extractor_extract s l) (\<lambda>el s1.
              bind_res (extractor_extract s1 r) (\<lambda>er s2. extractor_binary s2 l r el er))
                = (res, s')"
  shows "bind_res (extractor_extract (without_look_ahead s) l) (\<lambda>el s1.
         bind_res (extractor_extract s1 r) (\<lambda>er s2. extractor_binary s2 l r el er))
           = (res, without_look_ahead s')"
proof -
  obtain rl s1 where l: "extractor_extract s l = (rl, s1)"
    by (cases "extractor_extract s l") auto
  note l' = ihl [OF l]
  from l la have la1: "ex_look_ahead s1" by (simp add: look_ahead_extract)
  show ?thesis
  proof (cases rl)
    case (Inl e)
    with run l l' show ?thesis by (auto simp: bind_res_def)
  next
    case (Inr el)
    obtain rr s2 where r: "extractor_extract s1 r = (rr, s2)"
      by (cases "extractor_extract s1 r") auto
    note r' = ihr [OF la1 r]
    from r la1 have la2: "ex_look_ahead s2" by (simp add: look_ahead_extract)
    show ?thesis
    proof (cases rr)
      case (Inl e)
      with run l l' r r' \<open>rl = Inr el\<close> show ?thesis by (auto simp: bind_res_def)
    next
      case (Inr er)
      with run l l' r r' \<open>rl = Inr el\<close> sim_binary [OF la2, of l r el er] show ?thesis
        by (auto simp: bind_res_def)
    qed
  qed
qed

lemma sim_extract:
  "ex_look_ahead s \<Longrightarrow> extractor_extract s n = (res, s1)
     \<Longrightarrow> extractor_extract (without_look_ahead s) n = (res, without_look_ahead s1)"
  and sim_extract_list:
  "ex_look_ahead s \<Longrightarrow> extractor_extract_list s ns = (ress, s2)
     \<Longrightarrow> extractor_extract_list (without_look_ahead s) ns = (ress, without_look_ahead s2)"
proof (induction s n and s ns arbitrary: res s1 and ress s2
    rule: extractor_extract_extractor_extract_list.induct)
  case (1 self s r)
  then show ?case by auto
next
  case (2 self c)
  then show ?case by auto
next
  case (3 self f args)
  obtain ra sa where a: "extractor_extract_list self args = (ra, sa)"
    by (cases "extractor_extract_list self args") auto
  from "3.IH" [OF "3.prems"(1) a] a "3.prems"(2) show ?case
    by (cases ra) (auto simp: bind_res_def)
next
  case (4 self c t f)
  obtain rc sc where c: "extractor_extract self c = (rc, sc)"
    by (cases "extractor_extract self c") auto
  note c' = "4.IH"(1) [OF "4.prems"(1) c]
  from c "4.prems"(1) have lac: "ex_look_ahead sc" by (simp add: look_ahead_extract)
  show ?case
  proof (cases rc)
    case (Inl e)
    with c c' "4.prems"(2) show ?thesis by (auto simp: bind_res_def)
  next
    case rcv: (Inr ec)
    obtain rt st where t: "extractor_extract sc t = (rt, st)"
      by (cases "extractor_extract sc t") auto
    note t' = "4.IH"(2) [OF lac t]
    from t lac have lat: "ex_look_ahead st" by (simp add: look_ahead_extract)
    show ?thesis
    proof (cases rt)
      case (Inl e)
      with c c' t t' rcv "4.prems"(2) show ?thesis by (auto simp: bind_res_def)
    next
      case rtv: (Inr et)
      obtain rf sf where f: "extractor_extract st f = (rf, sf)"
        by (cases "extractor_extract st f") auto
      note f' = "4.IH"(3) [OF lat f]
      from c c' t t' f f' rcv rtv "4.prems"(2) show ?thesis
        by (cases rf) (auto simp: bind_res_def)
    qed
  qed
next
  case (5 self l r)
  have ihl: "extractor_extract (without_look_ahead self) l = (res', without_look_ahead s1')"
    if "extractor_extract self l = (res', s1')" for res' s1'
    using "5.IH"(1) [OF "5.prems"(1) that] .
  have ihr: "extractor_extract (without_look_ahead sa) r = (res', without_look_ahead s1')"
    if "ex_look_ahead sa" "extractor_extract sa r = (res', s1')" for sa res' s1'
    using "5.IH"(2) that by blast
  note run = "5.prems"(2) [unfolded extractor_extract.simps]
  show ?case
    unfolding extractor_extract.simps
    using "5.prems"(1) ihl ihr run by (rule sim_binary_node)
next
  case (6 self l r)
  have ihl: "extractor_extract (without_look_ahead self) l = (res', without_look_ahead s1')"
    if "extractor_extract self l = (res', s1')" for res' s1'
    using "6.IH"(1) [OF "6.prems"(1) that] .
  have ihr: "extractor_extract (without_look_ahead sa) r = (res', without_look_ahead s1')"
    if "ex_look_ahead sa" "extractor_extract sa r = (res', s1')" for sa res' s1'
    using "6.IH"(2) that by blast
  note run = "6.prems"(2) [unfolded extractor_extract.simps]
  show ?case
    unfolding extractor_extract.simps
    using "6.prems"(1) ihl ihr run by (rule sim_binary_node)
next
  case (7 self l r)
  have ihl: "extractor_extract (without_look_ahead self) l = (res', without_look_ahead s1')"
    if "extractor_extract self l = (res', s1')" for res' s1'
    using "7.IH"(1) [OF "7.prems"(1) that] .
  have ihr: "extractor_extract (without_look_ahead sa) r = (res', without_look_ahead s1')"
    if "ex_look_ahead sa" "extractor_extract sa r = (res', s1')" for sa res' s1'
    using "7.IH"(2) that by blast
  note run = "7.prems"(2) [unfolded extractor_extract.simps]
  show ?case
    unfolding extractor_extract.simps
    using "7.prems"(1) ihl ihr run by (rule sim_binary_node)
next
  case (8 self l r)
  have ihl: "extractor_extract (without_look_ahead self) l = (res', without_look_ahead s1')"
    if "extractor_extract self l = (res', s1')" for res' s1'
    using "8.IH"(1) [OF "8.prems"(1) that] .
  have ihr: "extractor_extract (without_look_ahead sa) r = (res', without_look_ahead s1')"
    if "ex_look_ahead sa" "extractor_extract sa r = (res', s1')" for sa res' s1'
    using "8.IH"(2) that by blast
  note run = "8.prems"(2) [unfolded extractor_extract.simps]
  show ?case
    unfolding extractor_extract.simps
    using "8.prems"(1) ihl ihr run by (rule sim_binary_node)
next
  case (9 self c)
  then show ?case by auto
next
  case (10 self)
  then show ?case by auto
next
  case (11 self n ns)
  obtain rn sn where n: "extractor_extract self n = (rn, sn)"
    by (cases "extractor_extract self n") auto
  note n' = "11.IH"(1) [OF "11.prems"(1) n]
  from n "11.prems"(1) have lan: "ex_look_ahead sn" by (simp add: look_ahead_extract)
  show ?case
  proof (cases rn)
    case (Inl e)
    with n n' "11.prems"(2) show ?thesis by (auto simp: bind_res_def)
  next
    case rnv: (Inr a)
    obtain rs ss where ns: "extractor_extract_list sn ns = (rs, ss)"
      by (cases "extractor_extract_list sn ns") auto
    note ns' = "11.IH"(2) [OF lan ns]
    from n n' ns ns' rnv "11.prems"(2) show ?thesis
      by (cases rs) (auto simp: bind_res_def)
  qed
qed


definition keyed_state :: "rewriter \<Rightarrow> bool" where
  "keyed_state s = keyed (ex_lda s) (expr_info s) (extracted s)"

lemma setdefault_append_entry:
  "(k', xs') \<in> set (setdefault_append m k x) \<Longrightarrow>
     (k', xs') \<in> set m \<or> (k' = k \<and> (xs' = [x] \<or> (\<exists>xs. (k, xs) \<in> set m \<and> xs' = xs @ [x])))"
  by (induction m) (auto split: if_splits)

lemma keyed_setdefault_append:
  assumes "keyed lda info m" and "\<not> is_Symbol x"
    and "k = sorted_dep (dims info) (node_dep lda info x)"
  shows "keyed lda info (setdefault_append m k x)"
  unfolding keyed_def
proof (intro ballI)
  fix kv y
  assume kv: "kv \<in> set (setdefault_append m k x)" and y: "y \<in> set (snd kv)"
  from kv have "(fst kv, snd kv) \<in> set (setdefault_append m k x)" by simp
  from setdefault_append_entry [OF this]
  consider "kv \<in> set m" | "fst kv = k" "snd kv = [x]"
    | xs where "fst kv = k" "(k, xs) \<in> set m" "snd kv = xs @ [x]"
    by auto
  then show "\<not> is_Symbol y \<and> fst kv = sorted_dep (dims info) (node_dep lda info y)"
  proof cases
    case 1
    with assms(1) y show ?thesis by (simp add: keyed_def)
  next
    case 2
    with assms(2,3) y show ?thesis by simp
  next
    case 3
    from assms(1) 3(2) have "\<forall>z \<in> set xs. \<not> is_Symbol z
        \<and> k = sorted_dep (dims info) (node_dep lda info z)"
      by (force simp: keyed_def)
    with 3 assms(2,3) y show ?thesis by auto
  qed
qed

lemma keyed_try:
  assumes "keyed_state s" and "dep = node_dep (ex_lda s) (expr_info s) n"
  shows "keyed_state (snd (extractor_try s n dep))"
  using assms
  by (auto simp: extractor_try_def keyed_state_def Let_def intro: keyed_setdefault_append)

lemma try_params:
  "ex_lda (snd (extractor_try s n dep)) = ex_lda s"
  "expr_info (snd (extractor_try s n dep)) = expr_info s"
  "ex_mode (snd (extractor_try s n dep)) = ex_mode s"
  using frame_try_snd [of s n dep] by (simp_all add: frame_def)

lemma keyed_try_or_EXT:
  assumes "keyed_state s" and "dep = node_dep (ex_lda s) (expr_info s) n"
  shows "keyed_state (snd (try_or_EXT s n dep dr dn))"
    and "fst (fst (try_or_EXT s n dep dn dn)) = dn"
  using keyed_try [OF assms]
  by (auto simp: try_or_EXT_def split: prod.splits)

lemma keyed_try_both:
  assumes "keyed_state s" and "da = node_dep (ex_lda s) (expr_info s) a"
    and "db = node_dep (ex_lda s) (expr_info s) b"
  shows "keyed_state (snd (try_both s a da b db))"
proof -
  have "keyed_state (snd (extractor_try (snd (extractor_try s a da)) b db))"
    by (rule keyed_try [OF keyed_try [OF assms(1,2)]]) (simp add: try_params assms(3))
  then show ?thesis
    by (cases "extractor_try s a da"; cases "extractor_try (snd (extractor_try s a da)) b db")
       (simp add: try_both_def)
qed

lemma keyed_try_either:
  assumes "keyed_state s" and "da = node_dep (ex_lda s) (expr_info s) a"
    and "db = node_dep (ex_lda s) (expr_info s) b"
  shows "keyed_state (snd (try_either s a da b db))"
proof -
  have 1: "keyed_state (snd (extractor_try s a da))" by (rule keyed_try [OF assms(1,2)])
  have "keyed_state (snd (extractor_try (snd (extractor_try s a da)) b db))"
    by (rule keyed_try [OF 1]) (simp add: try_params assms(3))
  with 1 show ?thesis
    by (cases "extractor_try s a da"; cases "extractor_try (snd (extractor_try s a da)) b db")
       (simp add: try_either_def)
qed

lemma keyed_soft:
  assumes "keyed_state s" and "dl = node_dep (ex_lda s) (expr_info s) l"
    and "dr = node_dep (ex_lda s) (expr_info s) r"
  shows "keyed_state (snd (extractor_soft s l r dl dr (dl \<union> dr) il ir))
         \<and> fst (fst (extractor_soft s l r dl dr (dl \<union> dr) il ir)) = dl \<union> dr"
  using assms(1) keyed_try [OF assms(1,2)] keyed_try [OF assms(1,3)]
    keyed_try_or_EXT [OF assms(1,2)] keyed_try_or_EXT [OF assms(1,3)]
    keyed_try_both [OF assms]
  by (auto simp: extractor_soft_def)

lemma keyed_normal:
  assumes "keyed_state s" and "dl = node_dep (ex_lda s) (expr_info s) l"
    and "dr = node_dep (ex_lda s) (expr_info s) r"
  shows "keyed_state (snd (extractor_normal s l r dl dr (dl \<union> dr) il ir))
         \<and> fst (fst (extractor_normal s l r dl dr (dl \<union> dr) il ir)) = dl \<union> dr"
  using assms(1) keyed_try [OF assms(1,2)] keyed_try [OF assms(1,3)]
    keyed_try_or_EXT [OF assms(1,2)] keyed_try_or_EXT [OF assms(1,3)]
    keyed_try_both [OF assms] keyed_try_either [OF assms]
    keyed_try_either [OF assms(1,3,2)]
  by (auto simp: extractor_normal_def split: prod.splits)

lemma keyed_aggressive:
  assumes "keyed_state s" and "dl = node_dep (ex_lda s) (expr_info s) l"
    and "dr = node_dep (ex_lda s) (expr_info s) r"
  shows "keyed_state (snd (extractor_aggressive s l r dl dr (dl \<union> dr) il ir))
         \<and> fst (fst (extractor_aggressive s l r dl dr (dl \<union> dr) il ir)) = dl \<union> dr"
  using assms(1) keyed_try [OF assms(1,2)] keyed_try [OF assms(1,3)]
    keyed_try_or_EXT [OF assms(1,2)] keyed_try_or_EXT [OF assms(1,3)]
  by (auto simp: extractor_aggressive_def)

lemma keyed_binary:
  assumes "keyed_state s"
    and "fst el \<inter> set (dims (expr_info s)) = node_dep (ex_lda s) (expr_info s) l"
    and "fst er \<inter> set (dims (expr_info s)) = node_dep (ex_lda s) (expr_info s) r"
    and "extractor_binary s l r el er = (Inr res, s1)"
  shows "keyed_state s1
         \<and> fst res = node_dep (ex_lda s) (expr_info s) l \<union> node_dep (ex_lda s) (expr_info s) r"
  using assms(4) keyed_soft [OF assms(1,2,3), of "snd el" "snd er"]
    keyed_normal [OF assms(1,2,3), of "snd el" "snd er"]
    keyed_aggressive [OF assms(1,2,3), of "snd el" "snd er"]
  by (auto simp: extractor_binary_def Let_def assms(2,3) split: if_splits prod.splits)


lemma params_extract:
  assumes "extractor_extract s n = (res, s1)"
  shows "ex_lda s1 = ex_lda s" "expr_info s1 = expr_info s" "ex_mode s1 = ex_mode s"
  using frame_extract [OF assms] by (simp_all add: frame_def)

lemma params_extract_list:
  assumes "extractor_extract_list s ns = (res, s1)"
  shows "ex_lda s1 = ex_lda s" "expr_info s1 = expr_info s" "ex_mode s1 = ex_mode s"
  using frame_extract_list [OF assms] by (simp_all add: frame_def)

lemma node_dep_simps:
  "node_dep lda info (Par c) = node_dep lda info c"
  "node_dep lda info (Sum l r) = node_dep lda info l \<union> node_dep lda info r"
  "node_dep lda info (Sub l r) = node_dep lda info l \<union> node_dep lda info r"
  "node_dep lda info (Prod l r) = node_dep lda info l \<union> node_dep lda info r"
  "node_dep lda info (Div l r) = node_dep lda info l \<union> node_dep lda info r"
  "node_dep lda info (Ternary c t f)
     = node_dep lda info c \<union> node_dep lda info t \<union> node_dep lda info f"
  "node_dep lda info (FunCall g args) = (\<Union>a \<in> set args. node_dep lda info a)"
  "node_dep lda info (Symbol v rk) = lda (Symbol v rk) \<inter> set (dims info)"
  by (auto simp: node_dep_def)

lemma keyed_binary_node:
  assumes k: "keyed_state s"
    and ihl: "\<And>res s1. extractor_extract s l = (Inr res, s1)
               \<Longrightarrow> keyed_state s1
                   \<and> fst res \<inter> set (dims (expr_info s)) = node_dep (ex_lda s) (expr_info s) l"
    and ihr: "\<And>sa res s1. keyed_state sa \<Longrightarrow> extractor_extract sa r = (Inr res, s1)
               \<Longrightarrow> keyed_state s1
                   \<and> fst res \<inter> set (dims (expr_info sa)) = node_dep (ex_lda sa) (expr_info sa) r"
    and run: "bind_res (extractor_extract s l) (\<lambda>el s1.
              bind_res (extractor_extract s1 r) (\<lambda>er s2. extractor_binary s2 l r el er))
                = (Inr res, s')"
  shows "keyed_state s'
         \<and> fst res \<inter> set (dims (expr_info s))
             = node_dep (ex_lda s) (expr_info s) l \<union> node_dep (ex_lda s) (expr_info s) r"
proof -
  from run obtain el s1 er s2 where l: "extractor_extract s l = (Inr el, s1)"
    and r: "extractor_extract s1 r = (Inr er, s2)"
    and b: "extractor_binary s2 l r el er = (Inr res, s')"
    by (auto elim!: bind_resE)
  note p1 = params_extract [OF l]
  note p2 = params_extract [OF r]
  from ihl [OF l] have k1: "keyed_state s1"
    and dl: "fst el \<inter> set (dims (expr_info s)) = node_dep (ex_lda s) (expr_info s) l" by simp_all
  from ihr [OF k1 r] have k2: "keyed_state s2"
    and dr: "fst er \<inter> set (dims (expr_info s)) = node_dep (ex_lda s) (expr_info s) r"
    by (simp_all add: p1)
  have dl2: "fst el \<inter> set (dims (expr_info s2)) = node_dep (ex_lda s2) (expr_info s2) l"
    using dl by (simp add: p1 p2)
  have dr2: "fst er \<inter> set (dims (expr_info s2)) = node_dep (ex_lda s2) (expr_info s2) r"
    using dr by (simp add: p1 p2)
  from keyed_binary [OF k2 dl2 dr2 b]
  have "keyed_state s'" and f: "fst res = node_dep (ex_lda s) (expr_info s) l
      \<union> node_dep (ex_lda s) (expr_info s) r"
    by (simp_all add: p1 p2)
  moreover have "node_dep (ex_lda s) (expr_info s) l \<subseteq> set (dims (expr_info s))"
    "node_dep (ex_lda s) (expr_info s) r \<subseteq> set (dims (expr_info s))"
    by (auto simp: node_dep_def)
  ultimately show ?thesis by auto
qed

lemma keyed_extract:
  "keyed_state s \<Longrightarrow> extractor_extract s n = (Inr res, s1)
     \<Longrightarrow> keyed_state s1
         \<and> fst res \<inter> set (dims (expr_info s)) = node_dep (ex_lda s) (expr_info s) n"
  and keyed_extract_list:
  "keyed_state s \<Longrightarrow> extractor_extract_list s ns = (Inr ress, s2)
     \<Longrightarrow> keyed_state s2
         \<and> (\<Union>a \<in> set ress. fst a) \<inter> set (dims (expr_info s))
             = (\<Union>a \<in> set ns. node_dep (ex_lda s) (expr_info s) a)"
proof (induction s n and s ns arbitrary: res s1 and ress s2
    rule: extractor_extract_extractor_extract_list.induct)
  case (1 self s r)
  then show ?case by (auto simp: node_dep_simps)
next
  case (2 self c)
  then show ?case by (simp add: node_dep_simps)
next
  case (3 self f args)
  from "3.prems"(2) obtain ress where a: "extractor_extract_list self args = (Inr ress, s1)"
    and res: "res = combine_args ress"
    by (auto elim!: bind_resE)
  from "3.IH" [OF "3.prems"(1) a] res show ?case
    by (simp add: node_dep_simps combine_args_def)
next
  case (4 self c t f)
  from "4.prems"(2) obtain ec sc et st ef where c: "extractor_extract self c = (Inr ec, sc)"
    and t: "extractor_extract sc t = (Inr et, st)"
    and f: "extractor_extract st f = (Inr ef, s1)"
    and res: "res = combine_args [ec, et, ef]"
    by (auto elim!: bind_resE)
  note pc = params_extract [OF c]
  note pt = params_extract [OF t]
  from "4.IH"(1) [OF "4.prems"(1) c] have kc: "keyed_state sc"
    and dc: "fst ec \<inter> set (dims (expr_info self)) = node_dep (ex_lda self) (expr_info self) c"
    by simp_all
  from "4.IH"(2) [OF kc t] have kt: "keyed_state st"
    and dt: "fst et \<inter> set (dims (expr_info self)) = node_dep (ex_lda self) (expr_info self) t"
    by (simp_all add: pc)
  from "4.IH"(3) [OF kt f] have kf: "keyed_state s1"
    and df: "fst ef \<inter> set (dims (expr_info self)) = node_dep (ex_lda self) (expr_info self) f"
    by (simp_all add: pc pt)
  from dc dt df have "(fst ec \<union> fst et \<union> fst ef) \<inter> set (dims (expr_info self))
      = node_dep (ex_lda self) (expr_info self) c \<union> node_dep (ex_lda self) (expr_info self) t
        \<union> node_dep (ex_lda self) (expr_info self) f" by blast
  with kf res show ?case by (simp add: node_dep_simps combine_args_def Un_assoc)
next
  case (5 self l r)
  have ihl: "keyed_state s1' \<and> fst res' \<inter> set (dims (expr_info self))
               = node_dep (ex_lda self) (expr_info self) l"
    if "extractor_extract self l = (Inr res', s1')" for res' s1'
    using "5.IH"(1) [OF "5.prems"(1) that] .
  have ihr: "keyed_state s1' \<and> fst res' \<inter> set (dims (expr_info sa))
               = node_dep (ex_lda sa) (expr_info sa) r"
    if "keyed_state sa" "extractor_extract sa r = (Inr res', s1')" for sa res' s1'
    using "5.IH"(2) that by blast
  note run = "5.prems"(2) [unfolded extractor_extract.simps]
  show ?case
    unfolding node_dep_simps
    using "5.prems"(1) ihl ihr run by (rule keyed_binary_node)
next
  case (6 self l r)
  have ihl: "keyed_state s1' \<and> fst res' \<inter> set (dims (expr_info self))
               = node_dep (ex_lda self) (expr_info self) l"
    if "extractor_extract self l = (Inr res', s1')" for res' s1'
    using "6.IH"(1) [OF "6.prems"(1) that] .
  have ihr: "keyed_state s1' \<and> fst res' \<inter> set (dims (expr_info sa))
               = node_dep (ex_lda sa) (expr_info sa) r"
    if "keyed_state sa" "extractor_extract sa r = (Inr res', s1')" for sa res' s1'
    using "6.IH"(2) that by blast
  note run = "6.prems"(2) [unfolded extractor_extract.simps]
  show ?case
    unfolding node_dep_simps
    using "6.prems"(1) ihl ihr run by (rule keyed_binary_node)
next
  case (7 self l r)
  have ihl: "keyed_state s1' \<and> fst res' \<inter> set (dims (expr_info self))
               = node_dep (ex_lda self) (expr_info self) l"
    if "extractor_extract self l = (Inr res', s1')" for res' s1'
    using "7.IH"(1) [OF "7.prems"(1) that] .
  have ihr: "keyed_state s1' \<and> fst res' \<inter> set (dims (expr_info sa))
               = node_dep (ex_lda sa) (expr_info sa) r"
    if "keyed_state sa" "extractor_extract sa r = (Inr res', s1')" for sa res' s1'
    using "7.IH"(2) that by blast
  note run = "7.prems"(2) [unfolded extractor_extract.simps]
  show ?case
    unfolding node_dep_simps
    using "7.prems"(1) ihl ihr run by (rule keyed_binary_node)
next
  case (8 self l r)
  have ihl: "keyed_state s1' \<and> fst res' \<inter> set (dims (expr_info self))
               = node_dep (ex_lda self) (expr_info self) l"
    if "extractor_extract self l = (Inr res', s1')" for res' s1'
    using "8.IH"(1) [OF "8.prems"(1) that] .
  have ihr: "keyed_state s1' \<and> fst res' \<inter> set (dims (expr_info sa))
               = node_dep (ex_lda sa) (expr_info sa) r"
    if "keyed_state sa" "extractor_extract sa r = (Inr res', s1')" for sa res' s1'
    using "8.IH"(2) that by blast
  note run = "8.prems"(2) [unfolded extractor_extract.simps]
  show ?case
    unfolding node_dep_simps
    using "8.prems"(1) ihl ihr run by (rule keyed_binary_node)
next
  case (9 self c)
  then show ?case by simp
next
  case (10 self)
  then show ?case by simp
next
  case (11 self n ns)
  from "11.prems"(2) obtain a sn as where n: "extractor_extract self n = (Inr a, sn)"
    and ns: "extractor_extract_list sn ns = (Inr as, s2)"
    and ress: "ress = a # as"
    by (auto elim!: bind_resE)
  note pn = params_extract [OF n]
  from "11.IH"(1) [OF "11.prems"(1) n] have kn: "keyed_state sn"
    and dn: "fst a \<inter> set (dims (expr_info self)) = node_dep (ex_lda self) (expr_info self) n"
    by simp_all
  from "11.IH"(2) [OF kn ns] have ks: "keyed_state s2"
    and ds: "(\<Union>a \<in> set as. fst a) \<inter> set (dims (expr_info self))
             = (\<Union>a \<in> set ns. node_dep (ex_lda self) (expr_info self) a)"
    by (simp_all add: pn)
  from dn ds have "(fst a \<union> (\<Union>a \<in> set as. fst a)) \<inter> set (dims (expr_info self))
      = node_dep (ex_lda self) (expr_info self) n
        \<union> (\<Union>a \<in> set ns. node_dep (ex_lda self) (expr_info self) a)" by blast
  with ks ress show ?case by simp
qed






lemma binary_normal_family:
  "ex_mode self \<in> set [''normal'', ''only_const'', ''only_outdomain''] \<Longrightarrow>
   extractor_binary self l r el er =
     (case extractor_normal self l r (fst el \<inter> set (dims (expr_info self)))
             (fst er \<inter> set (dims (expr_info self)))
             (fst el \<inter> set (dims (expr_info self)) \<union> fst er \<inter> set (dims (expr_info self)))
             (snd el) (snd er) of
        (res, s1) \<Rightarrow> (Inr res, s1))"
  by (simp add: extractor_binary_def Let_def)

lemma binary_only_domain:
  "ex_mode self = ''only_domain'' \<Longrightarrow>
   extractor_binary self l r el er =
     (case extractor_soft self l r (fst el \<inter> set (dims (expr_info self)))
             (fst er \<inter> set (dims (expr_info self)))
             (fst el \<inter> set (dims (expr_info self)) \<union> fst er \<inter> set (dims (expr_info self)))
             (snd el) (snd er) of
        (res, s1) \<Rightarrow> (Inr res, s1))"
  by (simp add: extractor_binary_def Let_def)

lemma binary_aggressive:
  "ex_mode self = ''aggressive'' \<Longrightarrow>
   extractor_binary self l r el er =
     (case extractor_aggressive self l r (fst el \<inter> set (dims (expr_info self)))
             (fst er \<inter> set (dims (expr_info self)))
             (fst el \<inter> set (dims (expr_info self)) \<union> fst er \<inter> set (dims (expr_info self)))
             (snd el) (snd er) of
        (res, s1) \<Rightarrow> (Inr res, s1))"
  by (simp add: extractor_binary_def Let_def)

lemma try_or_EXT_case:
  "(case try_or_EXT self n dep dn dn of (res, s1) \<Rightarrow> (Inr res, s1)) =
   (case extractor_try self n dep of (ok, s1) \<Rightarrow> (Inr (dn, if ok then STOP else EXT), s1))"
  by (simp add: try_or_EXT_def split: prod.splits)

lemma soft_subset:
  assumes "dp \<subset> dr"
  shows "extractor_soft self poor rich dp dr dn EXT EXT = try_or_EXT self rich dr dn dn"
    and "extractor_soft self rich poor dr dp dn EXT EXT = try_or_EXT self rich dr dn dn"
  using assms by (auto simp: extractor_soft_def)

lemma normal_subset:
  assumes "dp \<subset> dr" and "dp \<noteq> {}"
  shows "extractor_normal self poor rich dp dr dn EXT EXT = try_or_EXT self poor dp dn dn"
    and "extractor_normal self rich poor dr dp dn EXT EXT = try_or_EXT self poor dp dn dn"
  using assms by (auto simp: extractor_normal_def)

lemma aggressive_subset:
  assumes "dp \<subset> dr" and "dp \<noteq> {}"
  shows "extractor_aggressive self poor rich dp dr dn EXT EXT = try_or_EXT self poor dp dn dn"
    and "extractor_aggressive self rich poor dr dp dn EXT EXT = try_or_EXT self poor dp dn dn"
  using assms by (auto simp: extractor_aggressive_def)

lemma normal_empty:
  assumes "dr \<noteq> {}"
  shows "(case extractor_normal self poor rich {} dr dr EXT EXT of (res, s1) \<Rightarrow> (Inr res, s1))
     = (if set (domain_dims (expr_info self)) \<inter> dr = {} then (Inr (dr, EXT), self)
        else (case try_either self poor {} rich dr of
                (ok, s1) \<Rightarrow> (Inr (dr, if ok then STOP else EXT), s1)))"
    and "(case extractor_normal self rich poor dr {} dr EXT EXT of (res, s1) \<Rightarrow> (Inr res, s1))
     = (if set (domain_dims (expr_info self)) \<inter> dr = {} then (Inr (dr, EXT), self)
        else (case try_either self poor {} rich dr of
                (ok, s1) \<Rightarrow> (Inr (dr, if ok then STOP else EXT), s1)))"
  using assms by (auto simp: extractor_normal_def split: prod.splits)

lemma aggressive_empty:
  assumes "dr \<noteq> {}"
  shows "extractor_aggressive self poor rich {} dr dr EXT EXT
           = ((dr, STOP), snd (extractor_try self rich dr))"
    and "extractor_aggressive self rich poor dr {} dr EXT EXT
           = ((dr, STOP), snd (extractor_try self rich dr))"
  using assms by (auto simp: extractor_aggressive_def)

text \<open>
  Claim C1, as the code has it. At a binary node whose children are both \<^verbatim>\<open>EXT\<close> and
  whose dependency sets are one strictly inside the other, whichever child comes first:
  in mode \<^verbatim>\<open>only_domain\<close> the child with the larger set is tried; in the other modes,
  when the smaller set is not empty, the child with the smaller set is tried. In both
  cases the union of the two sets goes up, with \<^verbatim>\<open>EXT\<close> if the child was rejected and
  with \<^verbatim>\<open>STOP\<close> if it was extracted. When the smaller set is empty, \<^verbatim>\<open>_normal\<close> tries
  nothing if the larger set has no domain dimension, and otherwise the child with the
  empty set first and the other one next; \<^verbatim>\<open>_aggressive\<close> tries the child with the
  larger set and stops. The sizes of the subtrees play no part.
\<close>

theorem subset_related_sides:
  assumes "dp \<subseteq> set (dims (expr_info self))" and "dr \<subseteq> set (dims (expr_info self))"
    and "dp \<subset> dr"
  shows "(ex_mode self = ''only_domain'' \<longrightarrow>
            extractor_binary self poor rich (dp, EXT) (dr, EXT)
              = (case extractor_try self rich dr of
                   (ok, s1) \<Rightarrow> (Inr (dp \<union> dr, if ok then STOP else EXT), s1))
            \<and> extractor_binary self rich poor (dr, EXT) (dp, EXT)
              = (case extractor_try self rich dr of
                   (ok, s1) \<Rightarrow> (Inr (dp \<union> dr, if ok then STOP else EXT), s1)))
       \<and> ((ex_mode self \<in> set [''normal'', ''only_const'', ''only_outdomain'']
             \<or> ex_mode self = ''aggressive'') \<and> dp \<noteq> {} \<longrightarrow>
            extractor_binary self poor rich (dp, EXT) (dr, EXT)
              = (case extractor_try self poor dp of
                   (ok, s1) \<Rightarrow> (Inr (dp \<union> dr, if ok then STOP else EXT), s1))
            \<and> extractor_binary self rich poor (dr, EXT) (dp, EXT)
              = (case extractor_try self poor dp of
                   (ok, s1) \<Rightarrow> (Inr (dp \<union> dr, if ok then STOP else EXT), s1)))
       \<and> (ex_mode self \<in> set [''normal'', ''only_const'', ''only_outdomain'']
            \<and> dp = {} \<longrightarrow>
            extractor_binary self poor rich (dp, EXT) (dr, EXT)
              = (if set (domain_dims (expr_info self)) \<inter> dr = {} then (Inr (dr, EXT), self)
                 else (case try_either self poor {} rich dr of
                   (ok, s1) \<Rightarrow> (Inr (dr, if ok then STOP else EXT), s1)))
            \<and> extractor_binary self rich poor (dr, EXT) (dp, EXT)
              = (if set (domain_dims (expr_info self)) \<inter> dr = {} then (Inr (dr, EXT), self)
                 else (case try_either self poor {} rich dr of
                   (ok, s1) \<Rightarrow> (Inr (dr, if ok then STOP else EXT), s1))))
       \<and> (ex_mode self = ''aggressive'' \<and> dp = {} \<longrightarrow>
            extractor_binary self poor rich (dp, EXT) (dr, EXT)
              = (Inr (dr, STOP), snd (extractor_try self rich dr))
            \<and> extractor_binary self rich poor (dr, EXT) (dp, EXT)
              = (Inr (dr, STOP), snd (extractor_try self rich dr)))"
proof -
  from assms have i1: "dp \<inter> set (dims (expr_info self)) = dp"
    and i2: "dr \<inter> set (dims (expr_info self)) = dr" by auto
  from assms(3) have ne: "dr \<noteq> {}" by auto
  from assms(3) have u: "dr \<union> dp = dp \<union> dr" by auto
  have u0: "dp = {} \<Longrightarrow> dp \<union> dr = dr" by simp
  have A: "extractor_binary self poor rich (dp, EXT) (dr, EXT)
              = (case extractor_try self rich dr of
                   (ok, s1) \<Rightarrow> (Inr (dp \<union> dr, if ok then STOP else EXT), s1))
            \<and> extractor_binary self rich poor (dr, EXT) (dp, EXT)
              = (case extractor_try self rich dr of
                   (ok, s1) \<Rightarrow> (Inr (dp \<union> dr, if ok then STOP else EXT), s1))"
    if m: "ex_mode self = ''only_domain''"
    unfolding binary_only_domain [OF m] fst_conv snd_conv i1 i2 u
      soft_subset [OF assms(3)] try_or_EXT_case
    by simp
  have B1: "extractor_binary self poor rich (dp, EXT) (dr, EXT)
              = (case extractor_try self poor dp of
                   (ok, s1) \<Rightarrow> (Inr (dp \<union> dr, if ok then STOP else EXT), s1))
            \<and> extractor_binary self rich poor (dr, EXT) (dp, EXT)
              = (case extractor_try self poor dp of
                   (ok, s1) \<Rightarrow> (Inr (dp \<union> dr, if ok then STOP else EXT), s1))"
    if m: "ex_mode self \<in> set [''normal'', ''only_const'', ''only_outdomain'']" and d: "dp \<noteq> {}"
    unfolding binary_normal_family [OF m] fst_conv snd_conv i1 i2 u
      normal_subset [OF assms(3) d] try_or_EXT_case
    by simp
  have B2: "extractor_binary self poor rich (dp, EXT) (dr, EXT)
              = (case extractor_try self poor dp of
                   (ok, s1) \<Rightarrow> (Inr (dp \<union> dr, if ok then STOP else EXT), s1))
            \<and> extractor_binary self rich poor (dr, EXT) (dp, EXT)
              = (case extractor_try self poor dp of
                   (ok, s1) \<Rightarrow> (Inr (dp \<union> dr, if ok then STOP else EXT), s1))"
    if m: "ex_mode self = ''aggressive''" and d: "dp \<noteq> {}"
    unfolding binary_aggressive [OF m] fst_conv snd_conv i1 i2 u
      aggressive_subset [OF assms(3) d] try_or_EXT_case
    by simp
  have C: "extractor_binary self poor rich (dp, EXT) (dr, EXT)
              = (if set (domain_dims (expr_info self)) \<inter> dr = {} then (Inr (dr, EXT), self)
                 else (case try_either self poor {} rich dr of
                   (ok, s1) \<Rightarrow> (Inr (dr, if ok then STOP else EXT), s1)))
            \<and> extractor_binary self rich poor (dr, EXT) (dp, EXT)
              = (if set (domain_dims (expr_info self)) \<inter> dr = {} then (Inr (dr, EXT), self)
                 else (case try_either self poor {} rich dr of
                   (ok, s1) \<Rightarrow> (Inr (dr, if ok then STOP else EXT), s1)))"
    if m: "ex_mode self \<in> set [''normal'', ''only_const'', ''only_outdomain'']" and d: "dp = {}"
    unfolding binary_normal_family [OF m] fst_conv snd_conv d i2 Int_empty_left Un_empty_left
        Un_empty_right normal_empty [OF ne]
    by simp
  have D: "extractor_binary self poor rich (dp, EXT) (dr, EXT)
              = (Inr (dr, STOP), snd (extractor_try self rich dr))
            \<and> extractor_binary self rich poor (dr, EXT) (dp, EXT)
              = (Inr (dr, STOP), snd (extractor_try self rich dr))"
    if m: "ex_mode self = ''aggressive''" and d: "dp = {}"
    unfolding binary_aggressive [OF m] fst_conv snd_conv d i2 Int_empty_left Un_empty_left
        Un_empty_right aggressive_empty [OF ne]
    by simp
  from A B1 B2 C D show ?thesis by blast
qed

theorem subset_related_sides_witness:
  "{''i''} \<subseteq> set (dims (expr_info ((new_rewriter
        (Incr (Symbol (Str ''A'') [''i'', ''j'']) (Symbol (Str ''x'') []))
        \<lparr> dims = [''i'', ''j''], domain_dims = [''i'', ''j''], out_domain_dims = [] \<rparr>
        (\<lambda>n. None)) \<lparr> ex_mode := ''only_domain'' \<rparr>)))
   \<and> {''i'', ''j''} \<subseteq> set (dims (expr_info ((new_rewriter
        (Incr (Symbol (Str ''A'') [''i'', ''j'']) (Symbol (Str ''x'') []))
        \<lparr> dims = [''i'', ''j''], domain_dims = [''i'', ''j''], out_domain_dims = [] \<rparr>
        (\<lambda>n. None)) \<lparr> ex_mode := ''only_domain'' \<rparr>)))
   \<and> {''i''} \<subset> {''i'', ''j''}
   \<and> extractor_binary
        ((new_rewriter
          (Incr (Symbol (Str ''A'') [''i'', ''j'']) (Symbol (Str ''x'') []))
          \<lparr> dims = [''i'', ''j''], domain_dims = [''i'', ''j''], out_domain_dims = [] \<rparr>
          (\<lambda>n. None)) \<lparr> ex_mode := ''only_domain'' \<rparr>)
        (Sum (Symbol (Str ''A'') [''i'']) (Symbol (Str ''B'') [''i'']))
        (Sum (Symbol (Str ''C'') [''i'', ''j'']) (Symbol (Str ''D'') [''i'', ''j'']))
        ({''i''}, EXT) ({''i'', ''j''}, EXT)
      = (Inr ({''i''} \<union> {''i'', ''j''}, STOP),
         (new_rewriter
          (Incr (Symbol (Str ''A'') [''i'', ''j'']) (Symbol (Str ''x'') []))
          \<lparr> dims = [''i'', ''j''], domain_dims = [''i'', ''j''], out_domain_dims = [] \<rparr>
          (\<lambda>n. None))
         \<lparr> ex_mode := ''only_domain'',
           extracted := [([''i'', ''j''],
             [Sum (Symbol (Str ''C'') [''i'', ''j'']) (Symbol (Str ''D'') [''i'', ''j''])])] \<rparr>)"
proof -
  let ?self = "(new_rewriter
          (Incr (Symbol (Str ''A'') [''i'', ''j'']) (Symbol (Str ''x'') []))
          \<lparr> dims = [''i'', ''j''], domain_dims = [''i'', ''j''], out_domain_dims = [] \<rparr>
          (\<lambda>n. None)) \<lparr> ex_mode := ''only_domain'' \<rparr>"
  let ?poor = "Sum (Symbol (Str ''A'') [''i'']) (Symbol (Str ''B'') [''i''])"
  let ?rich = "Sum (Symbol (Str ''C'') [''i'', ''j'']) (Symbol (Str ''D'') [''i'', ''j''])"
  have a: "{''i''} \<subseteq> set (dims (expr_info ?self))" by (simp add: new_rewriter_def)
  have b: "{''i'', ''j''} \<subseteq> set (dims (expr_info ?self))" by (simp add: new_rewriter_def)
  have c: "{''i''} \<subset> {''i'', ''j''}" by auto
  have m: "ex_mode ?self = ''only_domain''" by (simp add: new_rewriter_def)
  have t: "extractor_try ?self ?rich {''i'', ''j''}
      = (True, ?self \<lparr> extracted := [([''i'', ''j''], [?rich])] \<rparr>)"
    by (simp add: extractor_try_def new_rewriter_def sorted_dep_def)
  from subset_related_sides [OF a b c, of ?poor ?rich] m
  have "extractor_binary ?self ?poor ?rich ({''i''}, EXT) ({''i'', ''j''}, EXT)
      = (case extractor_try ?self ?rich {''i'', ''j''} of
           (ok, s1) \<Rightarrow> (Inr ({''i''} \<union> {''i'', ''j''}, if ok then STOP else EXT), s1))"
    by blast
  with t have "extractor_binary ?self ?poor ?rich ({''i''}, EXT) ({''i'', ''j''}, EXT)
      = (Inr ({''i''} \<union> {''i'', ''j''}, STOP), ?self \<lparr> extracted := [([''i'', ''j''], [?rich])] \<rparr>)"
    by (simp only: prod.case if_True)
  then have "extractor_binary ?self ?poor ?rich ({''i''}, EXT) ({''i'', ''j''}, EXT)
      = (Inr ({''i''} \<union> {''i'', ''j''}, STOP),
         (new_rewriter
          (Incr (Symbol (Str ''A'') [''i'', ''j'']) (Symbol (Str ''x'') []))
          \<lparr> dims = [''i'', ''j''], domain_dims = [''i'', ''j''], out_domain_dims = [] \<rparr>
          (\<lambda>n. None))
         \<lparr> ex_mode := ''only_domain'', extracted := [([''i'', ''j''], [?rich])] \<rparr>)"
    by simp
  with a b c show ?thesis by (simp only: simp_thms)
qed

text \<open>The measure of the tie-break rule of the spec: the number of nodes of a subtree.\<close>

fun node_count :: "node \<Rightarrow> nat" where
  "node_count (Symbol s r) = 1"
| "node_count (Par c) = 1 + node_count c"
| "node_count (Sum l r) = 1 + node_count l + node_count r"
| "node_count (Sub l r) = 1 + node_count l + node_count r"
| "node_count (Prod l r) = 1 + node_count l + node_count r"
| "node_count (Div l r) = 1 + node_count l + node_count r"
| "node_count (Neg c) = 1 + node_count c"
| "node_count (FunCall f args) = 1 + sum_list (map node_count args)"
| "node_count (Ternary c t f) = 1 + node_count c + node_count t + node_count f"

text \<open>
  The claim as the spec words it fails in mode \<^verbatim>\<open>normal\<close> on
  \<^verbatim>\<open>(A[i] + B[i]) * ((C[i][j] + D[i][j]) + E[i][j])\<close>: the two factors are \<^verbatim>\<open>EXT\<close>
  with the dependencies \<^verbatim>\<open>{i}\<close> and \<^verbatim>\<open>{i, j}\<close>, and the extractor takes the first,
  which has the smaller set and the fewer nodes; the second is not tried.
\<close>

theorem subset_related_sides_counterexample:
  "fst (extractor_call
     (new_rewriter
        (Incr (Symbol (Str ''R'') [''i'', ''j''])
           (Prod (Sum (Symbol (Str ''A'') [''i'']) (Symbol (Str ''B'') [''i'']))
                 (Sum (Sum (Symbol (Str ''C'') [''i'', ''j'']) (Symbol (Str ''D'') [''i'', ''j'']))
                      (Symbol (Str ''E'') [''i'', ''j'']))))
        \<lparr> dims = [''i'', ''j''], domain_dims = [''i'', ''j''], out_domain_dims = [] \<rparr>
        (\<lambda>n. None))
     ''normal'' False (\<lambda>n. set (rank n)))
   = Inr [([''i''], [Sum (Symbol (Str ''A'') [''i'']) (Symbol (Str ''B'') [''i''])])]
   \<and> node_count (Sum (Symbol (Str ''A'') [''i'']) (Symbol (Str ''B'') [''i'']))
       < node_count (Sum (Sum (Symbol (Str ''C'') [''i'', ''j'']) (Symbol (Str ''D'') [''i'', ''j'']))
                      (Symbol (Str ''E'') [''i'', ''j'']))"
  by (simp add: extractor_call_def bind_res_def Let_def
      new_rewriter_def extractor_binary_def extractor_normal_def try_or_EXT_def
      extractor_try_def sorted_dep_def)

section \<open>The facade: expand and factorize\<close>

text \<open>
  What \<^verbatim>\<open>expand\<close> and \<^verbatim>\<open>factorize\<close> return: \<^verbatim>\<open>None\<close> (a bare \<^verbatim>\<open>return\<close>) or the
  rewriter itself. The keyword arguments that the two methods read are gathered in one
  record; \<^verbatim>\<open>lda\<close> is here a loop dependence analysis by symbol name
  (\<^verbatim>\<open>key='symbol'\<close>), which may have no entry for a name.
\<close>

datatype retval = RetNone | RetSelf

record rw_kwargs =
  kw_dimensions :: "string list option"
  kw_symbol_lda :: "(sval \<Rightarrow> string set option) option"
  kw_adhoc :: "(string \<times> string list) list option"
  kw_heuristic :: bool
  kw_not_aggregate :: bool

text \<open>The field \<^verbatim>\<open>symbol\<close>; the predicates below are applied to Symbols only.\<close>

fun symbol :: "node \<Rightarrow> sval" where
  "symbol (Symbol s r) = s"
| "symbol n = Str []"

text \<open>
  The predicates of the modes that rest on the analysis:
  \<^verbatim>\<open>lda.get(n.symbol) and any(r in ds for r in lda[n.symbol])\<close>,
  \<^verbatim>\<open>lda.get(n.symbol) and not lda[n.symbol].issubset(set(ds))\<close> and
  \<^verbatim>\<open>not lda.get(n.symbol)\<close>.
\<close>

definition lda_any :: "(sval \<Rightarrow> string set option) \<Rightarrow> string list \<Rightarrow> node \<Rightarrow> bool" where
  "lda_any lda ds n =
     (case lda (symbol n) of None \<Rightarrow> False | Some dep \<Rightarrow> dep \<noteq> {} \<and> (\<exists>r \<in> dep. r \<in> set ds))"

definition lda_outside :: "(sval \<Rightarrow> string set option) \<Rightarrow> string list \<Rightarrow> node \<Rightarrow> bool" where
  "lda_outside lda ds n =
     (case lda (symbol n) of None \<Rightarrow> False | Some dep \<Rightarrow> dep \<noteq> {} \<and> \<not> dep \<subseteq> set ds)"

definition lda_constant :: "(sval \<Rightarrow> string set option) \<Rightarrow> node \<Rightarrow> bool" where
  "lda_constant lda n = (case lda (symbol n) of None \<Rightarrow> True | Some dep \<Rightarrow> dep = {})"

text \<open>
  The end of \<^verbatim>\<open>expand\<close>: the expansion, the update of the declarations, and
  \<^verbatim>\<open>return self\<close>. The pass itself, \<^verbatim>\<open>ExpressionExpander.expand\<close>, is the parameter
  \<open>expander_expand\<close> here, so that what is proved of the facade holds whatever the pass
  does; an exception of the pass goes through.
\<close>

definition perform_expand ::
  "((node \<Rightarrow> bool) \<Rightarrow> rw_kwargs \<Rightarrow> rewriter \<Rightarrow> error + rewriter) \<Rightarrow> rewriter \<Rightarrow> rw_kwargs
     \<Rightarrow> (node \<Rightarrow> bool) \<Rightarrow> (error + retval) \<times> rewriter" where
  "perform_expand expander_expand self kwargs se =
     (case expander_expand se kwargs self of
        Inl e \<Rightarrow> (Inl e, self)
      | Inr s1 \<Rightarrow> (Inr RetSelf, s1\<lparr> decls := decls s1 ++ map_of (expanded_decls s1) \<rparr>))"

text \<open>
  \<^verbatim>\<open>ExpressionRewriter.expand\<close>. The analysis
  \<^verbatim>\<open>ldanalysis(self.expr_info.outermost_loop, key='symbol', value='dim')\<close> is the
  parameter \<open>ldanalysis\<close>, used when the caller gives none.
\<close>

definition expand ::
  "(string list list \<Rightarrow> string list list) \<Rightarrow> (rewriter \<Rightarrow> sval \<Rightarrow> string set option)
     \<Rightarrow> ((node \<Rightarrow> bool) \<Rightarrow> rw_kwargs \<Rightarrow> rewriter \<Rightarrow> error + rewriter)
     \<Rightarrow> rewriter \<Rightarrow> string \<Rightarrow> rw_kwargs \<Rightarrow> (error + retval) \<times> rewriter" where
  "expand order ldanalysis expander_expand self mode kwargs =
     (if mode = ''standard'' then
        (case standard_dimension order (expr_info self) (rvalue (stmt self)) of
           None \<Rightarrow> (Inr RetSelf, self)
         | Some d \<Rightarrow> perform_expand expander_expand self kwargs (along d))
      else if mode = ''dimensions'' then
        perform_expand expander_expand self kwargs
          (along (case kw_dimensions kwargs of Some ds \<Rightarrow> ds | None \<Rightarrow> []))
      else if mode \<in> set [''all'', ''domain'', ''outdomain''] then
        (let lda = (case kw_symbol_lda kwargs of Some l \<Rightarrow> l | None \<Rightarrow> ldanalysis self) in
         if mode = ''all'' then
           perform_expand expander_expand self kwargs (lda_any lda (dims (expr_info self)))
         else if mode = ''domain'' then
           perform_expand expander_expand self kwargs (lda_any lda (domain_dims (expr_info self)))
         else
           perform_expand expander_expand self kwargs
             (lda_outside lda (domain_dims (expr_info self))))
      else (Inr RetNone, self))"

text \<open>
  \<^verbatim>\<open>ExpressionRewriter.factorize\<close>, over the pass \<^verbatim>\<open>ExpressionFactorizer.factorize\<close>
  as a parameter. \<^verbatim>\<open>urepr\<close> is a property of the Symbols of \<^verbatim>\<open>base\<close>, a parameter too.
\<close>

definition perform_factorize ::
  "((node \<Rightarrow> bool) \<Rightarrow> rw_kwargs \<Rightarrow> rewriter \<Rightarrow> error + rewriter) \<Rightarrow> rewriter \<Rightarrow> rw_kwargs
     \<Rightarrow> (node \<Rightarrow> bool) \<Rightarrow> (error + retval) \<times> rewriter" where
  "perform_factorize factorizer_factorize self kwargs sf =
     (case factorizer_factorize sf kwargs self of
        Inl e \<Rightarrow> (Inl e, self)
      | Inr s1 \<Rightarrow> (Inr RetSelf, s1))"

definition factorize ::
  "(string list list \<Rightarrow> string list list) \<Rightarrow> (rewriter \<Rightarrow> sval \<Rightarrow> string set option)
     \<Rightarrow> (node \<Rightarrow> string)
     \<Rightarrow> ((node \<Rightarrow> bool) \<Rightarrow> rw_kwargs \<Rightarrow> rewriter \<Rightarrow> error + rewriter)
     \<Rightarrow> rewriter \<Rightarrow> string \<Rightarrow> rw_kwargs \<Rightarrow> (error + retval) \<times> rewriter" where
  "factorize order ldanalysis urepr factorizer_factorize self mode kwargs =
     (if mode = ''standard'' then
        (case standard_dimension order (expr_info self) (rvalue (stmt self)) of
           None \<Rightarrow> (Inr RetSelf, self)
         | Some d \<Rightarrow> perform_factorize factorizer_factorize self kwargs (along d))
      else if mode = ''dimensions'' then
        perform_factorize factorizer_factorize self kwargs
          (along (case kw_dimensions kwargs of Some ds \<Rightarrow> ds | None \<Rightarrow> []))
      else if mode = ''adhoc'' then
        (case kw_adhoc kwargs of
           None \<Rightarrow> (Inr RetSelf, self)
         | Some adhoc \<Rightarrow>
             if adhoc = [] then (Inr RetSelf, self)
             else perform_factorize factorizer_factorize self kwargs
                    (\<lambda>n. urepr n \<in> fst ` set adhoc))
      else if mode = ''heuristic'' then
        perform_factorize factorizer_factorize self (kwargs\<lparr> kw_heuristic := True \<rparr>)
          (\<lambda>n. False)
      else if mode \<in> set [''all'', ''domain'', ''outdomain'', ''constants''] then
        (let lda = (case kw_symbol_lda kwargs of Some l \<Rightarrow> l | None \<Rightarrow> ldanalysis self) in
         if mode = ''all'' then
           perform_factorize factorizer_factorize self kwargs
             (lda_any lda (dims (expr_info self)))
         else if mode = ''domain'' then
           perform_factorize factorizer_factorize self kwargs
             (lda_any lda (domain_dims (expr_info self)))
         else if mode = ''outdomain'' then
           perform_factorize factorizer_factorize self kwargs
             (lda_outside lda (domain_dims (expr_info self)))
         else
           perform_factorize factorizer_factorize self kwargs (lda_constant lda))
      else (Inr RetNone, self))"

text \<open>The modes that the two methods know.\<close>

definition expand_modes :: "string list" where
  "expand_modes = [''standard'', ''dimensions'', ''all'', ''domain'', ''outdomain'']"

definition factorize_modes :: "string list" where
  "factorize_modes = [''standard'', ''dimensions'', ''adhoc'', ''heuristic'',
                      ''all'', ''domain'', ''outdomain'', ''constants'']"

lemma perform_expand_ret: "fst (perform_expand p self kw se) \<noteq> Inr RetNone"
  by (simp add: perform_expand_def split: sum.splits)

lemma perform_factorize_ret: "fst (perform_factorize p self kw se) \<noteq> Inr RetNone"
  by (simp add: perform_factorize_def split: sum.splits)

lemma expand_unknown:
  "mode \<notin> set expand_modes \<Longrightarrow> expand order ldan p self mode kw = (Inr RetNone, self)"
  by (simp add: expand_def expand_modes_def)

lemma factorize_unknown:
  "mode \<notin> set factorize_modes \<Longrightarrow> factorize order ldan u p self mode kw = (Inr RetNone, self)"
  by (simp add: factorize_def factorize_modes_def)

lemma expand_known:
  "mode \<in> set expand_modes \<Longrightarrow> fst (expand order ldan p self mode kw) \<noteq> Inr RetNone"
  by (auto simp: expand_def expand_modes_def Let_def perform_expand_ret split: option.splits)

lemma factorize_known:
  "mode \<in> set factorize_modes \<Longrightarrow> fst (factorize order ldan u p self mode kw) \<noteq> Inr RetNone"
  by (auto simp: factorize_def factorize_modes_def Let_def perform_factorize_ret
      split: option.splits)

subsection \<open>The mode \<^verbatim>\<open>standard\<close>\<close>

text \<open>
  A pass that does nothing but keep the predicate it is given, as
  \<^verbatim>\<open>ExpressionExpander.expand\<close> does first (\<^verbatim>\<open>self.should_expand = should_expand\<close>): it
  shows what the facade hands to the expander.
\<close>

definition recording_pass :: "(node \<Rightarrow> bool) \<Rightarrow> rw_kwargs \<Rightarrow> rewriter \<Rightarrow> error + rewriter" where
  "recording_pass se kwargs self = Inr (self\<lparr> should_expand := se \<rparr>)"

text \<open>
  Claim C2, as the code has it. In mode \<^verbatim>\<open>standard\<close> the dimensions that are counted are
  the out-of-domain ones when there is one and the expression has fewer than two domain
  loops, and the domain ones otherwise, whatever occurs among the symbols. Every Symbol of
  the right-hand side gives the tuple of the counted dimensions of its rank, when it is not
  empty: \<open>occ\<close> lists these tuples. With no such tuple \<^verbatim>\<open>expand\<close> returns the rewriter and
  leaves the statement and the session as they are; otherwise it runs the expander, whatever
  the expander is, with the predicate "every dimension of \<open>d\<close> is in the rank of the symbol",
  where \<open>d\<close> is one of the tuples and no tuple occurs more often than \<open>d\<close>. The iteration
  order of the Counter is any rearrangement of its keys.
\<close>

theorem expand_standard_dimension:
  assumes "occ = filter (\<lambda>t. t \<noteq> [])
             (map (\<lambda>s. filter (\<lambda>r. r \<in> set (if out_domain_dims (expr_info self) \<noteq> []
                                                  \<and> length (domain_dims (expr_info self)) < 2
                                               then out_domain_dims (expr_info self)
                                               else domain_dims (expr_info self))) (rank s))
                (find_symbols (rvalue (stmt self))))"
    and "set (order (remdups occ)) = set occ"
  shows "(occ = [] \<longrightarrow>
            expand order ldanalysis pass self ''standard'' kwargs = (Inr RetSelf, self))
         \<and> (occ \<noteq> [] \<longrightarrow>
              (\<exists>d \<in> set occ.
                 (\<forall>t \<in> set occ. count_list occ t \<le> count_list occ d)
                 \<and> expand order ldanalysis pass self ''standard'' kwargs
                     = perform_expand pass self kwargs
                         (\<lambda>n. \<forall>r \<in> set d. r \<in> set (rank n))))"
proof -
  have ds: "standard_dims (expr_info self)
              = (if out_domain_dims (expr_info self) \<noteq> []
                      \<and> length (domain_dims (expr_info self)) < 2
                 then out_domain_dims (expr_info self) else domain_dims (expr_info self))"
    by (auto simp: standard_dims_def dimension_def Let_def)
  have occ: "standard_occurrences (expr_info self) (rvalue (stmt self)) = occ"
    unfolding standard_occurrences_def Let_def ds assms(1) by (rule refl)
  have none: "(most_common1 order occ = None) = (occ = [])"
    using assms(2) by (rule most_common1_None)
  have 1: "expand order ldanalysis pass self ''standard'' kwargs = (Inr RetSelf, self)"
    if "occ = []"
  proof -
    from that none have "most_common1 order occ = None" by simp
    then show ?thesis by (simp add: expand_def standard_dimension_def occ)
  qed
  have 2: "\<exists>d \<in> set occ.
                 (\<forall>t \<in> set occ. count_list occ t \<le> count_list occ d)
                 \<and> expand order ldanalysis pass self ''standard'' kwargs
                     = perform_expand pass self kwargs
                         (\<lambda>n. \<forall>r \<in> set d. r \<in> set (rank n))"
    if "occ \<noteq> []"
  proof -
    from that none have "most_common1 order occ \<noteq> None" by simp
    then obtain d where d: "most_common1 order occ = Some d" by auto
    from assms(2) d have mc: "d \<in> set occ \<and> (\<forall>x \<in> set occ. count_list occ x \<le> count_list occ d)"
      by (rule most_common1_Some)
    have al: "along d = (\<lambda>n. \<forall>r \<in> set d. r \<in> set (rank n))"
      by (rule ext) (auto simp: along_def)
    from d have "expand order ldanalysis pass self ''standard'' kwargs
                   = perform_expand pass self kwargs (along d)"
      by (simp add: expand_def standard_dimension_def occ)
    with mc al show ?thesis by auto
  qed
  from 1 2 show ?thesis by blast
qed

text \<open>
  \<^verbatim>\<open>A[j][k]*B[j][k]*C[i][j]\<close> with the domain loops \<^verbatim>\<open>j\<close>, \<^verbatim>\<open>k\<close> and the out-of-domain
  loop \<^verbatim>\<open>i\<close>: the tuple \<^verbatim>\<open>(j, k)\<close> occurs twice, \<^verbatim>\<open>(j,)\<close> once.
\<close>

theorem expand_standard_dimension_witness:
  "fst (expand (\<lambda>ks. ks) (\<lambda>s g. None) recording_pass
     (new_rewriter
        (Incr (Symbol (Str ''X'') [''j'', ''k''])
           (Prod (Prod (Symbol (Str ''A'') [''j'', ''k'']) (Symbol (Str ''B'') [''j'', ''k'']))
                 (Symbol (Str ''C'') [''i'', ''j''])))
        \<lparr> dims = [''j'', ''k'', ''i''], domain_dims = [''j'', ''k''], out_domain_dims = [''i''] \<rparr>
        (\<lambda>n. None))
     ''standard''
     \<lparr> kw_dimensions = None, kw_symbol_lda = None, kw_adhoc = None,
       kw_heuristic = False, kw_not_aggregate = False \<rparr>) = Inr RetSelf
   \<and> should_expand (snd (expand (\<lambda>ks. ks) (\<lambda>s g. None) recording_pass
     (new_rewriter
        (Incr (Symbol (Str ''X'') [''j'', ''k''])
           (Prod (Prod (Symbol (Str ''A'') [''j'', ''k'']) (Symbol (Str ''B'') [''j'', ''k'']))
                 (Symbol (Str ''C'') [''i'', ''j''])))
        \<lparr> dims = [''j'', ''k'', ''i''], domain_dims = [''j'', ''k''], out_domain_dims = [''i''] \<rparr>
        (\<lambda>n. None))
     ''standard''
     \<lparr> kw_dimensions = None, kw_symbol_lda = None, kw_adhoc = None,
       kw_heuristic = False, kw_not_aggregate = False \<rparr>))
      = (\<lambda>n. \<forall>r \<in> set [''j'', ''k'']. r \<in> set (rank n))
   \<and> count_list [[''j'', ''k''], [''j'', ''k''], [''j'']] [''j'']
        \<le> count_list [[''j'', ''k''], [''j'', ''k''], [''j'']] [''j'', ''k'']"
proof -
  let ?info = "\<lparr> dims = [''j'', ''k'', ''i''], domain_dims = [''j'', ''k''],
                  out_domain_dims = [''i''] \<rparr>"
  let ?st = "Incr (Symbol (Str ''X'') [''j'', ''k''])
           (Prod (Prod (Symbol (Str ''A'') [''j'', ''k'']) (Symbol (Str ''B'') [''j'', ''k'']))
                 (Symbol (Str ''C'') [''i'', ''j'']))"
  let ?self = "new_rewriter ?st ?info (\<lambda>n. None)"
  let ?kw = "\<lparr> kw_dimensions = None, kw_symbol_lda = None, kw_adhoc = None,
       kw_heuristic = False, kw_not_aggregate = False \<rparr>"
  let ?occ = "[[''j'', ''k''], [''j'', ''k''], [''j'']]"
  have o: "?occ = filter (\<lambda>t. t \<noteq> [])
             (map (\<lambda>s. filter (\<lambda>r. r \<in> set (if out_domain_dims (expr_info ?self) \<noteq> []
                                                  \<and> length (domain_dims (expr_info ?self)) < 2
                                               then out_domain_dims (expr_info ?self)
                                               else domain_dims (expr_info ?self))) (rank s))
                (find_symbols (rvalue (stmt ?self))))"
    by (simp add: new_rewriter_def)
  have p: "set ((\<lambda>ks. ks) (remdups ?occ)) = set ?occ" by simp
  have c: "count_list ?occ [''j''] = 1" "count_list ?occ [''j'', ''k''] = 2" by simp_all
  note t = expand_standard_dimension [of ?occ ?self "\<lambda>ks. ks" "\<lambda>s g. None" recording_pass ?kw,
      OF o p]
  have "\<exists>d \<in> set ?occ. (\<forall>t \<in> set ?occ. count_list ?occ t \<le> count_list ?occ d)
          \<and> expand (\<lambda>ks. ks) (\<lambda>s g. None) recording_pass ?self ''standard'' ?kw
              = perform_expand recording_pass ?self ?kw (\<lambda>n. \<forall>r \<in> set d. r \<in> set (rank n))"
    using conjunct2 [OF t] by (rule mp) (simp only: list.distinct not_False_eq_True)
  then obtain d where d: "d \<in> set ?occ" "\<forall>t \<in> set ?occ. count_list ?occ t \<le> count_list ?occ d"
    and e: "expand (\<lambda>ks. ks) (\<lambda>s g. None) recording_pass ?self ''standard'' ?kw
              = perform_expand recording_pass ?self ?kw (\<lambda>n. \<forall>r \<in> set d. r \<in> set (rank n))"
    by blast
  from d(1) have "d = [''j'', ''k''] \<or> d = [''j'']" by auto
  moreover have "d \<noteq> [''j'']"
  proof
    assume "d = [''j'']"
    with d(2) have "count_list ?occ [''j'', ''k''] \<le> count_list ?occ [''j'']" by simp
    with c show False by simp
  qed
  ultimately have "d = [''j'', ''k'']" by simp
  with e have "expand (\<lambda>ks. ks) (\<lambda>s g. None) recording_pass ?self ''standard'' ?kw
              = perform_expand recording_pass ?self ?kw
                  (\<lambda>n. \<forall>r \<in> set [''j'', ''k'']. r \<in> set (rank n))" by (simp only:)
  then show ?thesis by (simp add: perform_expand_def recording_pass_def)
qed

text \<open>
  The claim as the spec words it fails on \<^verbatim>\<open>A[j]*B[j]*C[i]\<close> with the domain loop
  \<^verbatim>\<open>j\<close> and the out-of-domain loop \<^verbatim>\<open>i\<close>: the domain dimension occurs in two symbols,
  and yet the out-of-domain dimensions are counted and the expander is run along \<^verbatim>\<open>i\<close>.
  And with two domain loops \<^verbatim>\<open>j\<close>, \<^verbatim>\<open>k\<close> and the right-hand side \<^verbatim>\<open>C[i]\<close>, where no
  domain dimension occurs, the out-of-domain dimension is not counted: \<^verbatim>\<open>expand\<close> returns
  with nothing done.
\<close>

theorem expand_standard_counterexample:
  "should_expand (snd (expand (\<lambda>ks. ks) (\<lambda>s g. None) recording_pass
     (new_rewriter
        (Incr (Symbol (Str ''X'') [''j''])
           (Prod (Prod (Symbol (Str ''A'') [''j'']) (Symbol (Str ''B'') [''j'']))
                 (Symbol (Str ''C'') [''i''])))
        \<lparr> dims = [''i'', ''j''], domain_dims = [''j''], out_domain_dims = [''i''] \<rparr>
        (\<lambda>n. None))
     ''standard''
     \<lparr> kw_dimensions = None, kw_symbol_lda = None, kw_adhoc = None,
       kw_heuristic = False, kw_not_aggregate = False \<rparr>)) = along [''i'']
   \<and> length (filter (\<lambda>s. ''j'' \<in> set (rank s))
        (find_symbols (Prod (Prod (Symbol (Str ''A'') [''j'']) (Symbol (Str ''B'') [''j'']))
           (Symbol (Str ''C'') [''i''])))) = 2
   \<and> expand (\<lambda>ks. ks) (\<lambda>s g. None) recording_pass
       (new_rewriter (Incr (Symbol (Str ''X'') [''j'', ''k'']) (Symbol (Str ''C'') [''i'']))
          \<lparr> dims = [''i'', ''j'', ''k''], domain_dims = [''j'', ''k''], out_domain_dims = [''i''] \<rparr>
          (\<lambda>n. None))
       ''standard''
       \<lparr> kw_dimensions = None, kw_symbol_lda = None, kw_adhoc = None,
         kw_heuristic = False, kw_not_aggregate = False \<rparr>
     = (Inr RetSelf,
        new_rewriter (Incr (Symbol (Str ''X'') [''j'', ''k'']) (Symbol (Str ''C'') [''i'']))
          \<lparr> dims = [''i'', ''j'', ''k''], domain_dims = [''j'', ''k''], out_domain_dims = [''i''] \<rparr>
          (\<lambda>n. None))"
  by (simp add: expand_def standard_eval perform_expand_def recording_pass_def new_rewriter_def)

subsection \<open>Unknown modes\<close>

text \<open>
  Claim C10. Called with a mode that is not among the modes it knows, \<^verbatim>\<open>expand\<close> (and
  likewise \<^verbatim>\<open>factorize\<close>) leaves the statement and the whole session as they are and
  returns \<^verbatim>\<open>None\<close>; with a mode it knows it never returns \<^verbatim>\<open>None\<close>: it returns the
  rewriter, unless the pass raises.
\<close>

theorem unknown_mode_returns_None:
  "(mode \<notin> set expand_modes \<longrightarrow>
      expand order ldan pe self mode kw = (Inr RetNone, self))
   \<and> (mode \<notin> set factorize_modes \<longrightarrow>
      factorize order ldan u pf self mode kw = (Inr RetNone, self))
   \<and> (mode \<in> set expand_modes \<longrightarrow>
      fst (expand order ldan pe self mode kw) \<noteq> Inr RetNone)
   \<and> (mode \<in> set factorize_modes \<longrightarrow>
      fst (factorize order ldan u pf self mode kw) \<noteq> Inr RetNone)"
  using expand_unknown [of mode order ldan pe self kw]
    factorize_unknown [of mode order ldan u pf self kw]
    expand_known [of mode order ldan pe self kw]
    factorize_known [of mode order ldan u pf self kw]
  by blast

theorem unknown_mode_returns_None_witness:
  "''fancy'' \<notin> set expand_modes \<and> ''fancy'' \<notin> set factorize_modes
   \<and> expand (\<lambda>ks. ks) (\<lambda>self n. None) (\<lambda>se kw self. Inr self)
        (new_rewriter
           (Incr (Symbol (Str ''A'') [''i''])
              (Prod (Sum (Symbol (Str ''X'') [''i'']) (Symbol (Str ''Y'') [''i'']))
                    (Symbol (Str ''Z'') [])))
           \<lparr> dims = [''i''], domain_dims = [''i''], out_domain_dims = [] \<rparr> (\<lambda>n. None))
        ''fancy''
        \<lparr> kw_dimensions = None, kw_symbol_lda = None, kw_adhoc = None,
          kw_heuristic = False, kw_not_aggregate = False \<rparr>
      = (Inr RetNone,
         new_rewriter
           (Incr (Symbol (Str ''A'') [''i''])
              (Prod (Sum (Symbol (Str ''X'') [''i'']) (Symbol (Str ''Y'') [''i'']))
                    (Symbol (Str ''Z'') [])))
           \<lparr> dims = [''i''], domain_dims = [''i''], out_domain_dims = [] \<rparr> (\<lambda>n. None))
   \<and> factorize (\<lambda>ks. ks) (\<lambda>self n. None) (\<lambda>n. []) (\<lambda>sf kw self. Inr self)
        (new_rewriter
           (Incr (Symbol (Str ''A'') [''i''])
              (Prod (Sum (Symbol (Str ''X'') [''i'']) (Symbol (Str ''Y'') [''i'']))
                    (Symbol (Str ''Z'') [])))
           \<lparr> dims = [''i''], domain_dims = [''i''], out_domain_dims = [] \<rparr> (\<lambda>n. None))
        ''fancy''
        \<lparr> kw_dimensions = None, kw_symbol_lda = None, kw_adhoc = None,
          kw_heuristic = False, kw_not_aggregate = False \<rparr>
      = (Inr RetNone,
         new_rewriter
           (Incr (Symbol (Str ''A'') [''i''])
              (Prod (Sum (Symbol (Str ''X'') [''i'']) (Symbol (Str ''Y'') [''i'']))
                    (Symbol (Str ''Z'') [])))
           \<lparr> dims = [''i''], domain_dims = [''i''], out_domain_dims = [] \<rparr> (\<lambda>n. None))"
proof -
  have e: "''fancy'' \<notin> set expand_modes" by (simp add: expand_modes_def)
  have f: "''fancy'' \<notin> set factorize_modes" by (simp add: factorize_modes_def)
  from unknown_mode_returns_None [of "''fancy''" "\<lambda>ks. ks" "\<lambda>self n. None"
      "\<lambda>se kw self. Inr self"
      "new_rewriter
           (Incr (Symbol (Str ''A'') [''i''])
              (Prod (Sum (Symbol (Str ''X'') [''i'']) (Symbol (Str ''Y'') [''i'']))
                    (Symbol (Str ''Z'') [])))
           \<lparr> dims = [''i''], domain_dims = [''i''], out_domain_dims = [] \<rparr> (\<lambda>n. None)"
      "\<lparr> kw_dimensions = None, kw_symbol_lda = None, kw_adhoc = None,
          kw_heuristic = False, kw_not_aggregate = False \<rparr>"
      "\<lambda>n. []" "\<lambda>sf kw self. Inr self"] e f
  show ?thesis by blast
qed

section \<open>The expander: aggregation with a hoisted temporary\<close>

text \<open>
  Modelled from the spec: the \<^verbatim>\<open>ExpressionGraph\<close> that \<^verbatim>\<open>rewriter.py\<close> imports from
  \<^verbatim>\<open>ast_analyzer\<close> (not at hand; the class of that name in \<^verbatim>\<open>optimizer.py\<close> is an
  earlier one, whose \<^verbatim>\<open>add_dependency\<close> takes three arguments).
  "\<^verbatim>\<open>add_dependency(lhs, rhs_subtree)\<close>: extract all Symbol names appearing in
  \<^verbatim>\<open>rhs_subtree\<close> and add an edge \<^verbatim>\<open>lhs\<close> to each. If \<^verbatim>\<open>lhs\<close> already has outgoing
  edges, additionally add a self-edge"; "\<^verbatim>\<open>is_read(s)\<close>: true iff \<^verbatim>\<open>s\<close> has any incoming
  edge".
\<close>

definition graph_add_dependency :: "digraph \<Rightarrow> sval \<Rightarrow> node \<Rightarrow> digraph" where
  "graph_add_dependency g lhs rhs =
     extract_syms lhs rhs (if has_out_edge g lhs then add_edge g lhs lhs else g)"

definition is_read :: "digraph \<Rightarrow> sval \<Rightarrow> bool" where
  "is_read g s = (s \<in> snd ` edges g)"

text \<open>\<^verbatim>\<open>a in b\<close> on two Python strings: \<^verbatim>\<open>a\<close> occurs in \<^verbatim>\<open>b\<close>.\<close>

fun starts_with :: "string \<Rightarrow> string \<Rightarrow> bool" where
  "starts_with [] b = True"
| "starts_with (x # xs) [] = False"
| "starts_with (x # xs) (y # ys) = (x = y \<and> starts_with xs ys)"

fun str_in :: "string \<Rightarrow> string \<Rightarrow> bool" where
  "str_in a [] = (a = [])"
| "str_in a (y # ys) = (starts_with a (y # ys) \<or> str_in a ys)"

text \<open>
  The loop of \<^verbatim>\<open>_hoist\<close> that asks whether the grouped symbols break a data
  dependency. It goes through the loops of the expression from the innermost one, gives
  up (\<^verbatim>\<open>return {}\<close>) at a loop whose dimension occurs in the dimension of a loop that a
  grouped symbol depends on, and ends after the loop that is a child of the block where
  the temporary is placed. The dictionary \<^verbatim>\<open>info\<close> comes from \<^verbatim>\<open>visit\<close>, which is not at
  hand: the parameter \<open>info\<close> gives, for the name of a symbol, the dimensions of the loops
  in \<^verbatim>\<open>g_deps\<close>.
\<close>

fun breaks_dependency ::
  "(nat \<Rightarrow> loop) \<Rightarrow> item list \<Rightarrow> (sval \<Rightarrow> string list) \<Rightarrow> sval list \<Rightarrow> nat list \<Rightarrow> bool" where
  "breaks_dependency ls place_children info grp_syms [] = False"
| "breaks_dependency ls place_children info grp_syms (l # rest) =
     (if list_ex (\<lambda>g. list_ex (\<lambda>d. str_in (l_dim (ls l)) d) (info g)) grp_syms then True
      else if ILoop l \<in> set place_children then False
      else breaks_dependency ls place_children info grp_syms rest)"

text \<open>
  \<^verbatim>\<open>ExpressionExpander.Cache\<close>. Its keys and the test of \<^verbatim>\<open>invalidate\<close> compare
  the texts of nodes (\<^verbatim>\<open>str\<close>); the model compares the nodes.
\<close>

definition cache_retrieve ::
  "rewriter \<Rightarrow> node \<times> node \<Rightarrow> node option \<times> rewriter" where
  "cache_retrieve self key =
     (case map_of (cache_map self) key of
        None \<Rightarrow> (None, self)
      | Some e \<Rightarrow> (Some e, self\<lparr> cache_hits := (cache_hits self)(key := cache_hits self key + 1) \<rparr>))"

definition cache_invalidate :: "rewriter \<Rightarrow> node \<Rightarrow> bool \<times> rewriter" where
  "cache_invalidate self e =
     (list_ex (\<lambda>(i, j). j = e \<and> cache_hits self i > 0) (cache_map self),
      self\<lparr> cache_map := filter (\<lambda>(i, j). j \<noteq> e) (cache_map self) \<rparr>)"

fun dict_set :: "('k \<times> 'v) list \<Rightarrow> 'k \<Rightarrow> 'v \<Rightarrow> ('k \<times> 'v) list" where
  "dict_set [] k v = [(k, v)]"
| "dict_set ((k', v') # kvs) k v =
     (if k' = k then (k, v) # kvs else (k', v') # dict_set kvs k v)"

definition cache_add :: "rewriter \<Rightarrow> node \<times> node \<Rightarrow> node \<Rightarrow> rewriter" where
  "cache_add self key e = self\<lparr> cache_map := dict_set (cache_map self) key e \<rparr>"

text \<open>
  The first Symbol of the expanded expression that is a hoisted temporary and that is to
  be expanded; \<open>None\<close> when there is none (the \<^verbatim>\<open>except\<close> branch).
\<close>

definition hoisted_symbol :: "rewriter \<Rightarrow> node \<Rightarrow> node option" where
  "hoisted_symbol self e =
     (case filter (\<lambda>s. symbol s \<in> fst ` set (hoisted self) \<and> should_expand self s)
             (find_symbols e) of
        [] \<Rightarrow> None
      | s # ss \<Rightarrow> Some s)"

text \<open>The name \<^verbatim>\<open>"%(loop_dep)s_EXP_%(expr_id)d_%(i)d"\<close> of a new temporary.\<close>

function digits_of :: "nat \<Rightarrow> string" where
  "digits_of n = (if n < 10 then [char_of (48 + n)] else digits_of (n div 10) @ [char_of (48 + n mod 10)])"
  by pat_completeness auto
termination
  by (relation "measure (\<lambda>n. n)") auto

fun name_of :: "sval \<Rightarrow> string" where
  "name_of (Str s) = s"
| "name_of (Num v) = []"

definition expanded_sym :: "sval \<Rightarrow> nat \<Rightarrow> nat \<Rightarrow> sval" where
  "expanded_sym loop_dep eid i =
     Str (name_of loop_dep @ ''_EXP_'' @ digits_of eid @ ''_'' @ digits_of i)"

text \<open>
  Modelled from the spec: \<^verbatim>\<open>insert_at_elem\<close> (module \<^verbatim>\<open>utils\<close>), which declares the
  new temporary "beside the original": the new element is put in front of the given one;
  \<open>None\<close> when the given one is not in the list.
\<close>

fun insert_at_elem :: "item list \<Rightarrow> item \<Rightarrow> item \<Rightarrow> item list option" where
  "insert_at_elem [] elem new_elem = None"
| "insert_at_elem (x # xs) elem new_elem =
     (if x = elem then Some (new_elem # x # xs)
      else map_option (\<lambda>ys. x # ys) (insert_at_elem xs elem new_elem))"

fun set_symbol :: "node \<Rightarrow> sval \<Rightarrow> node" where
  "set_symbol (Symbol s r) s' = Symbol s' r"
| "set_symbol n s' = n"

text \<open>
  The second half of \<^verbatim>\<open>_hoist\<close>, from "Create new symbol, expression, and declaration":
  a new temporary is made, its statement is appended to the loop of the hoisted one and
  its declaration put beside the hoisted one.
\<close>

definition hoist_new ::
  "rewriter \<Rightarrow> node \<Rightarrow> node \<Rightarrow> node \<times> node \<Rightarrow> hinfo
     \<Rightarrow> (error + (node \<times> node) option) \<times> rewriter" where
  "hoist_new self e grp cache_key h =
     (let expr = Prod e grp;
          hoisted_exp = set_symbol e
            (expanded_sym (symbol e) (expr_id self) (length (expanded_decls self)));
          decl = (h_decl h)\<lparr> d_sym := set_symbol (d_sym (h_decl h)) (symbol hoisted_exp),
                              d_local := True \<rparr>;
          new_stmt = Assign hoisted_exp expr
      in case h_loop h of
           None \<Rightarrow> (Inl AttributeError, self)
         | Some l \<Rightarrow>
            (let a = next_addr self;
                 s1 = self\<lparr> stmt_store := (stmt_store self)(a := new_stmt),
                            next_addr := a + 1,
                            loop_store := (loop_store self)
                              (l := (loop_store self l)
                                 \<lparr> l_body := l_body (loop_store self l) @ [IStmt a] \<rparr>) \<rparr>
             in case insert_at_elem (block_store s1 (h_place h)) (IDecl (h_decl h)) (IDecl decl) of
                  None \<Rightarrow> (Inl ValueError, s1)
                | Some children \<Rightarrow>
                   (let s2 = s1\<lparr> block_store := (block_store s1)(h_place h := children),
                                 expanded_decls :=
                                   dict_set (expanded_decls s1) (symbol (d_sym decl)) decl,
                                 hoisted := dict_set (hoisted s1) (symbol hoisted_exp)
                                   \<lparr> h_stmt = a, h_decl = decl, h_loop = Some l,
                                     h_place = h_place h \<rparr>,
                                 expr_graph :=
                                   graph_add_dependency (expr_graph s1) (symbol hoisted_exp) expr \<rparr>
                    in (Inr (Some (e, hoisted_exp)), cache_add s2 cache_key hoisted_exp))))"

text \<open>
  \<^verbatim>\<open>ExpressionExpander._hoist(expansion, info)\<close>, for the expansion
  \<^verbatim>\<open>Prod(expansion_left, expansion_right)\<close>. The dictionary it returns has one entry or
  none. The registry has an entry for the symbol found, which was chosen among its keys.
\<close>

definition hoist ::
  "(sval \<Rightarrow> string list) \<Rightarrow> rewriter \<Rightarrow> node \<Rightarrow> node
     \<Rightarrow> (error + (node \<times> node) option) \<times> rewriter" where
  "hoist info self expansion_left expansion_right =
     (let grp = expansion_right in
      case hoisted_symbol self expansion_left of
        None \<Rightarrow> (Inr None, self)
      | Some e \<Rightarrow>
         (let cache_key = (e, grp) in
          case cache_retrieve self cache_key of
            (Some cached, s1) \<Rightarrow> (Inr (Some (e, cached)), s1)
          | (None, s1) \<Rightarrow>
             (case map_of (hoisted s1) (symbol e) of
                None \<Rightarrow> (Inr None, s1)
              | Some h \<Rightarrow>
                 (let grp_syms = map symbol (find_symbols grp) in
                  if breaks_dependency (loop_store s1) (block_store s1 (h_place h)) info grp_syms
                       (rev (loops s1))
                  then (Inr None, s1)
                  else if is_read (expr_graph s1) (symbol e) then
                    hoist_new s1 e grp cache_key h
                  else
                    (case cache_invalidate s1 e of
                       (True, s2) \<Rightarrow> hoist_new s2 e grp cache_key h
                     | (False, s2) \<Rightarrow>
                         (let old = stmt_store s2 (h_stmt h) in
                          (Inr (Some (e, e)),
                           s2\<lparr> stmt_store := (stmt_store s2)
                                   (h_stmt h := set_rvalue old (Prod (rvalue old) grp)),
                                expr_graph := graph_add_dependency (expr_graph s2) (symbol e) grp
                              \<rparr>)))))))"

text \<open>
  What holds of the cache throughout a session: an expression that is the key of a cached
  expansion is read in the expression graph, by the temporary that the expansion made. It
  holds of a new rewriter and every call of \<^verbatim>\<open>_hoist\<close> keeps it.
\<close>

definition cache_sound :: "rewriter \<Rightarrow> bool" where
  "cache_sound self = (\<forall>((e, g), v) \<in> set (cache_map self). is_read (expr_graph self) (symbol e))"

lemma edges_graph_add_dependency:
  "edges (graph_add_dependency g lhs rhs)
     = edges g \<union> Pair lhs ` symbol_names rhs \<union> (if has_out_edge g lhs then {(lhs, lhs)} else {})"
  by (auto simp: graph_add_dependency_def edges_extract_syms add_edge_def)

lemma is_read_mono:
  "is_read g s \<Longrightarrow> is_read (graph_add_dependency g lhs rhs) s"
  by (auto simp: is_read_def edges_graph_add_dependency)

lemma find_symbols_Symbol: "s \<in> set (find_symbols n) \<Longrightarrow> is_Symbol s"
  by (induction n arbitrary: s) auto

lemma hoisted_symbol_Some:
  assumes "hoisted_symbol self x = Some e"
  shows "is_Symbol e \<and> symbol e \<in> fst ` set (hoisted self) \<and> should_expand self e"
proof -
  let ?f = "filter (\<lambda>s. symbol s \<in> fst ` set (hoisted self) \<and> should_expand self s) (find_symbols x)"
  from assms obtain ss where "?f = e # ss"
    by (auto simp: hoisted_symbol_def split: list.splits)
  then have "e \<in> set ?f" by simp
  then show ?thesis using find_symbols_Symbol by auto
qed

lemma set_dict_set: "set (dict_set kvs k v) \<subseteq> insert (k, v) (set kvs)"
  by (induction kvs) (auto split: if_splits)

lemma cache_sound_retrieve:
  "cache_sound self \<Longrightarrow> cache_retrieve self key = (r, s1) \<Longrightarrow> cache_sound s1"
  by (auto simp: cache_retrieve_def cache_sound_def split: option.splits)

lemma cache_sound_invalidate:
  "cache_sound self \<Longrightarrow> cache_invalidate self e = (r, s1) \<Longrightarrow> cache_sound s1"
  by (auto simp: cache_invalidate_def cache_sound_def)

lemma cache_sound_new:
  assumes "cache_sound self" and "is_Symbol e" and "hoist_new self e grp (e, grp) h = (r, s1)"
  shows "cache_sound s1"
proof (cases "h_loop h")
  case None
  with assms show ?thesis by (simp add: hoist_new_def Let_def)
next
  case hl: (Some l)
  from assms(2) obtain sy rk where e: "e = Symbol sy rk" by (cases e) auto
  let ?name = "expanded_sym (symbol e) (expr_id self) (length (expanded_decls self))"
  let ?g = "graph_add_dependency (expr_graph self) (symbol (set_symbol e ?name)) (Prod e grp)"
  have rd: "is_read ?g (symbol e)"
    by (auto simp: is_read_def edges_graph_add_dependency e intro!: image_eqI [where x = "(Str x, sy)" for x])
  have old: "\<And>k v. (k, v) \<in> set (cache_map self) \<Longrightarrow> is_read ?g (symbol (fst k))"
    using assms(1) is_read_mono by (fastforce simp: cache_sound_def)
  show ?thesis
  proof (cases "insert_at_elem (block_store self (h_place h)) (IDecl (h_decl h))
      (IDecl ((h_decl h)\<lparr> d_sym := set_symbol (d_sym (h_decl h)) (symbol (set_symbol e ?name)),
                              d_local := True \<rparr>))")
    case None
    with assms hl show ?thesis
      by (auto simp: hoist_new_def Let_def cache_sound_def)
  next
    case ins: (Some children)
    have "\<And>k v. (k, v) \<in> set (dict_set (cache_map self) (e, grp) (set_symbol e ?name))
        \<Longrightarrow> is_read ?g (symbol (fst k))"
      using set_dict_set [of "cache_map self" "(e, grp)" "set_symbol e ?name"] old rd by auto
    with assms(3) hl ins show ?thesis
      by (auto simp: hoist_new_def Let_def cache_sound_def cache_add_def)
  qed
qed


lemma cache_sound_hoist:
  assumes "cache_sound self" and "hoist info self left grp = (r, s')"
  shows "cache_sound s'"
proof (cases "hoisted_symbol self left")
  case None
  with assms show ?thesis by (simp add: hoist_def)
next
  case (Some e)
  then have sym: "is_Symbol e" using hoisted_symbol_Some by blast
  obtain c s1 where cr: "cache_retrieve self (e, grp) = (c, s1)"
    by (cases "cache_retrieve self (e, grp)") auto
  with assms(1) have s1: "cache_sound s1" by (rule cache_sound_retrieve)
  show ?thesis
  proof (cases c)
    case (Some cached)
    with assms(2) \<open>hoisted_symbol self left = Some e\<close> cr s1 show ?thesis
      by (simp add: hoist_def)
  next
    case None
    note cN = this
    show ?thesis
    proof (cases "map_of (hoisted s1) (symbol e)")
      case None
      with assms(2) \<open>hoisted_symbol self left = Some e\<close> cr cN s1 show ?thesis
        by (simp add: hoist_def)
    next
      case (Some h)
      obtain w s2 where ci: "cache_invalidate s1 e = (w, s2)"
        by (cases "cache_invalidate s1 e") auto
      with s1 have s2: "cache_sound s2" by (rule cache_sound_invalidate)
      have new1: "\<And>r s. hoist_new s1 e grp (e, grp) h = (r, s) \<Longrightarrow> cache_sound s"
        using s1 sym by (rule cache_sound_new)
      have new2: "\<And>r s. hoist_new s2 e grp (e, grp) h = (r, s) \<Longrightarrow> cache_sound s"
        using s2 sym by (rule cache_sound_new)
      have inplace: "cache_sound (s2\<lparr> stmt_store := st,
            expr_graph := graph_add_dependency (expr_graph s2) (symbol e) grp \<rparr>)" for st
        using s2 is_read_mono by (fastforce simp: cache_sound_def)
      from assms(2) \<open>hoisted_symbol self left = Some e\<close> cr cN Some ci s1 new1 new2 inplace
      show ?thesis
        by (auto simp: hoist_def Let_def split: if_splits bool.splits)
    qed
  qed
qed

lemma cache_sound_new_rewriter: "cache_sound (new_rewriter st info ds)"
  by (simp add: cache_sound_def new_rewriter_def)

text \<open>
  The test that the loop of \<^verbatim>\<open>_hoist\<close> makes at a loop \<^verbatim>\<open>l\<close>: some symbol of \<^verbatim>\<open>grp\<close>
  depends on a loop whose dimension holds the dimension of \<^verbatim>\<open>l\<close>
  (\<^verbatim>\<open>any([l.dim in g.dim for g in g_deps])\<close>).
\<close>

definition depends_on_loop ::
  "(nat \<Rightarrow> loop) \<Rightarrow> (sval \<Rightarrow> string list) \<Rightarrow> node \<Rightarrow> nat \<Rightarrow> bool" where
  "depends_on_loop ls info grp l =
     list_ex (\<lambda>g. list_ex (\<lambda>d. str_in (l_dim (ls l)) d) (info g)) (map symbol (find_symbols grp))"

text \<open>
  The loops at which the test is made: those of the expression from the innermost one, up
  to and with the first one that is a child of the block where the temporary is placed
  (\<^verbatim>\<open>if l in hoisted_place.children: break\<close>); all of them when none is.
\<close>

fun checked_loops :: "item list \<Rightarrow> nat list \<Rightarrow> nat list" where
  "checked_loops place_children [] = []"
| "checked_loops place_children (l # rest) =
     (if ILoop l \<in> set place_children then [l] else l # checked_loops place_children rest)"

lemma breaks_dependency_checked:
  "breaks_dependency ls pc info (map symbol (find_symbols grp)) lps
     = list_ex (depends_on_loop ls info grp) (checked_loops pc lps)"
  by (induction lps) (auto simp: depends_on_loop_def)

text \<open>
  Claim C6, as the code has it. Let \<^verbatim>\<open>exp\<close> be the hoisted temporary found in an expansion
  \<^verbatim>\<open>Prod(exp, grp)\<close>, not read in the expression graph and with no cached expansion that
  is invalidated. The loops of the expression are gone through from the innermost one, up
  to and with the first one that is a child of the block where the temporary is placed. If
  \<^verbatim>\<open>grp\<close> depends on none of them, then the right-hand side of the statement that defines
  the temporary becomes \<^verbatim>\<open>Prod(old_rvalue, grp)\<close>, in place; the graph gets an edge from
  the temporary to every symbol of \<^verbatim>\<open>grp\<close>; and no temporary is made: the registry, the
  declarations, the loops and the blocks are as they were. If \<^verbatim>\<open>grp\<close> depends on one of
  them, nothing is aggregated and nothing changes.
\<close>

theorem hoist_in_place:
  assumes sound: "cache_sound self"
    and found: "hoisted_symbol self left = Some e"
    and entry: "map_of (hoisted self) (symbol e) = Some h"
    and unread: "\<not> is_read (expr_graph self) (symbol e)"
    and valid: "\<not> fst (cache_invalidate self e)"
  shows "((\<forall>l \<in> set (checked_loops (block_store self (h_place h)) (rev (loops self))).
             \<not> depends_on_loop (loop_store self) info grp l)
          \<longrightarrow> (\<exists>self'. hoist info self left grp = (Inr (Some (e, e)), self')
           \<and> stmt_store self' = (stmt_store self)
                (h_stmt h := set_rvalue (stmt_store self (h_stmt h))
                               (Prod (rvalue (stmt_store self (h_stmt h))) grp))
           \<and> Pair (symbol e) ` symbol_names grp \<subseteq> edges (expr_graph self')
           \<and> edges (expr_graph self) \<subseteq> edges (expr_graph self')
           \<and> hoisted self' = hoisted self \<and> expanded_decls self' = expanded_decls self
           \<and> decls self' = decls self \<and> loop_store self' = loop_store self
           \<and> block_store self' = block_store self \<and> next_addr self' = next_addr self))
       \<and> ((\<exists>l \<in> set (checked_loops (block_store self (h_place h)) (rev (loops self))).
             depends_on_loop (loop_store self) info grp l)
          \<longrightarrow> hoist info self left grp = (Inr None, self))"
proof -
  have miss: "map_of (cache_map self) (e, grp) = None"
  proof (cases "map_of (cache_map self) (e, grp)")
    case (Some v)
    then have "((e, grp), v) \<in> set (cache_map self)" by (rule map_of_SomeD)
    with sound have "is_read (expr_graph self) (symbol e)" by (auto simp: cache_sound_def)
    with unread show ?thesis by simp
  qed simp
  then have cr: "cache_retrieve self (e, grp) = (None, self)" by (simp add: cache_retrieve_def)
  obtain s2 where ci: "cache_invalidate self e = (False, s2)"
    and s2: "s2 = self\<lparr> cache_map := filter (\<lambda>(i, j). j \<noteq> e) (cache_map self) \<rparr>"
    using valid by (cases "cache_invalidate self e") (auto simp: cache_invalidate_def)
  let ?old = "stmt_store self (h_stmt h)"
  let ?s' = "s2\<lparr> stmt_store := (stmt_store s2)(h_stmt h := set_rvalue ?old (Prod (rvalue ?old) grp)),
                expr_graph := graph_add_dependency (expr_graph s2) (symbol e) grp \<rparr>"
  let ?brk = "breaks_dependency (loop_store self) (block_store self (h_place h)) info
                   (map symbol (find_symbols grp)) (rev (loops self))"
  have brk: "?brk = (\<exists>l \<in> set (checked_loops (block_store self (h_place h)) (rev (loops self))).
             depends_on_loop (loop_store self) info grp l)"
    by (simp add: breaks_dependency_checked list_ex_iff)
  have run: "hoist info self left grp = (Inr (Some (e, e)), ?s')" if "\<not> ?brk"
    using found cr entry that unread ci s2 by (simp add: hoist_def Let_def)
  have stop: "hoist info self left grp = (Inr None, self)" if "?brk"
    using found cr entry that by (simp add: hoist_def Let_def)
  have props: "stmt_store ?s' = (stmt_store self)
                (h_stmt h := set_rvalue ?old (Prod (rvalue ?old) grp))
           \<and> Pair (symbol e) ` symbol_names grp \<subseteq> edges (expr_graph ?s')
           \<and> edges (expr_graph self) \<subseteq> edges (expr_graph ?s')
           \<and> hoisted ?s' = hoisted self \<and> expanded_decls ?s' = expanded_decls self
           \<and> decls ?s' = decls self \<and> loop_store ?s' = loop_store self
           \<and> block_store ?s' = block_store self \<and> next_addr ?s' = next_addr self"
    by (auto simp: s2 edges_graph_add_dependency)
  from run stop props brk show ?thesis by blast
qed


text \<open>
  Scenario 4 of the spec after code motion: \<^verbatim>\<open>A[i][j] += X[i]*Y[j]*F\<close>, with the
  temporary \<^verbatim>\<open>Y[j] = B[j]\<close> in a loop of its own in front of the nest.
\<close>

definition scenario4 :: rewriter where
  "scenario4 =
     (new_rewriter
        (Incr (Symbol (Str ''A'') [''i'', ''j''])
           (Prod (Prod (Symbol (Str ''X'') [''i'']) (Symbol (Str ''Y'') [''j'']))
                 (Symbol (Str ''F'') [])))
        \<lparr> dims = [''i'', ''j''], domain_dims = [''i'', ''j''], out_domain_dims = [] \<rparr>
        (\<lambda>n. None))
     \<lparr> loops := [2, 3],
       hoisted := [(Str ''Y'',
          \<lparr> h_stmt = 0,
            h_decl = \<lparr> d_typ = ''double'', d_sym = Symbol (Str ''Y'') [''n''], d_local = True \<rparr>,
            h_loop = Some 1, h_place = 0 \<rparr>)],
       expr_graph := add_edge empty_graph (Str ''Y'') (Str ''B''),
       stmt_store := (\<lambda>a. Assign (Symbol (Str ''Y'') [''j'']) (Symbol (Str ''B'') [''j''])),
       loop_store := (\<lambda>a. if a = 2 then \<lparr> l_dim = ''i'', l_body = [ILoop 3] \<rparr>
                           else if a = 3 then \<lparr> l_dim = ''j'', l_body = [] \<rparr>
                           else \<lparr> l_dim = ''j'', l_body = [IStmt 0] \<rparr>),
       block_store := (\<lambda>a. [IDecl \<lparr> d_typ = ''double'', d_sym = Symbol (Str ''Y'') [''n''],
                                     d_local = True \<rparr>, ILoop 1, ILoop 2]),
       should_expand := along [''j''] \<rparr>"

theorem hoist_in_place_witness:
  "cache_sound scenario4
   \<and> hoisted_symbol scenario4 (Symbol (Str ''Y'') [''j'']) = Some (Symbol (Str ''Y'') [''j''])
   \<and> checked_loops (block_store scenario4 0) (rev (loops scenario4)) = [3, 2]
   \<and> \<not> depends_on_loop (loop_store scenario4) (\<lambda>g. []) (Symbol (Str ''F'') []) 3
   \<and> \<not> depends_on_loop (loop_store scenario4) (\<lambda>g. []) (Symbol (Str ''F'') []) 2
   \<and> \<not> is_read (expr_graph scenario4) (Str ''Y'')
   \<and> \<not> fst (cache_invalidate scenario4 (Symbol (Str ''Y'') [''j'']))
   \<and> fst (hoist (\<lambda>g. []) scenario4 (Symbol (Str ''Y'') [''j'']) (Symbol (Str ''F'') []))
       = Inr (Some (Symbol (Str ''Y'') [''j''], Symbol (Str ''Y'') [''j'']))
   \<and> stmt_store (snd (hoist (\<lambda>g. []) scenario4 (Symbol (Str ''Y'') [''j''])
         (Symbol (Str ''F'') []))) 0
       = Assign (Symbol (Str ''Y'') [''j''])
           (Prod (Symbol (Str ''B'') [''j'']) (Symbol (Str ''F'') []))
   \<and> (Str ''Y'', Str ''F'') \<in> edges (expr_graph (snd (hoist (\<lambda>g. []) scenario4
         (Symbol (Str ''Y'') [''j'']) (Symbol (Str ''F'') []))))
   \<and> hoisted (snd (hoist (\<lambda>g. []) scenario4 (Symbol (Str ''Y'') [''j''])
         (Symbol (Str ''F'') []))) = hoisted scenario4"
proof -
  let ?e = "Symbol (Str ''Y'') [''j'']"
  let ?grp = "Symbol (Str ''F'') []"
  let ?h = "\<lparr> h_stmt = 0,
            h_decl = \<lparr> d_typ = ''double'', d_sym = Symbol (Str ''Y'') [''n''], d_local = True \<rparr>,
            h_loop = Some 1, h_place = 0 \<rparr>"
  have 1: "cache_sound scenario4" by (simp add: cache_sound_def scenario4_def new_rewriter_def)
  have 2: "hoisted_symbol scenario4 ?e = Some ?e"
    by (simp add: hoisted_symbol_def scenario4_def new_rewriter_def along_def)
  have 3: "map_of (hoisted scenario4) (symbol ?e) = Some ?h"
    by (simp add: scenario4_def new_rewriter_def)
  have 4: "checked_loops (block_store scenario4 0) (rev (loops scenario4)) = [3, 2]"
    by (simp add: scenario4_def new_rewriter_def)
  have dep4: "\<not> depends_on_loop (loop_store scenario4) (\<lambda>g. []) ?grp 3"
    "\<not> depends_on_loop (loop_store scenario4) (\<lambda>g. []) ?grp 2"
    by (simp_all add: depends_on_loop_def)
  have all4: "\<forall>l \<in> set (checked_loops (block_store scenario4 (h_place ?h)) (rev (loops scenario4))).
             \<not> depends_on_loop (loop_store scenario4) (\<lambda>g. []) ?grp l"
    using 4 dep4 by simp
  have 5: "\<not> is_read (expr_graph scenario4) (symbol ?e)"
    by (simp add: is_read_def scenario4_def new_rewriter_def add_edge_def empty_graph_def)
  have 6: "\<not> fst (cache_invalidate scenario4 ?e)"
    by (simp add: cache_invalidate_def scenario4_def new_rewriter_def)
  from conjunct1 [OF hoist_in_place [OF 1 2 3 5 6, of "\<lambda>g. []" ?grp]] all4
  obtain self' where r: "hoist (\<lambda>g. []) scenario4 ?e ?grp = (Inr (Some (?e, ?e)), self')"
    and st: "stmt_store self' = (stmt_store scenario4)
                (h_stmt ?h := set_rvalue (stmt_store scenario4 (h_stmt ?h))
                               (Prod (rvalue (stmt_store scenario4 (h_stmt ?h))) ?grp))"
    and ed: "Pair (symbol ?e) ` symbol_names ?grp \<subseteq> edges (expr_graph self')"
    and ho: "hoisted self' = hoisted scenario4"
    by blast
  have st0: "stmt_store self' 0 = Assign ?e (Prod (Symbol (Str ''B'') [''j'']) ?grp)"
    unfolding st by (simp add: scenario4_def new_rewriter_def)
  have ed0: "(Str ''Y'', Str ''F'') \<in> edges (expr_graph self')" using ed by simp
  from 1 2 4 dep4 5 6 r st0 ed0 ho show ?thesis by simp
qed


text \<open>
  The first condition as the claim words it: \<^verbatim>\<open>grp\<close> depends on no loop that encloses the
  place of the temporary, the wrap loop of the temporary apart. \<open>enclosing\<close> lists the loops
  that are taken to enclose the place, and a loop of the dimension of the wrap loop counts
  as the wrap loop.
\<close>

definition spec_independent ::
  "(nat \<Rightarrow> loop) \<Rightarrow> (sval \<Rightarrow> string list) \<Rightarrow> nat list \<Rightarrow> nat option \<Rightarrow> node \<Rightarrow> bool" where
  "spec_independent ls info enclosing wrap_loop grp =
     list_all (\<lambda>l. (case wrap_loop of Some w \<Rightarrow> l_dim (ls l) = l_dim (ls w) | None \<Rightarrow> False)
                   \<or> \<not> depends_on_loop ls info grp l) enclosing"

text \<open>
  The claim as stated fails in scenario 4, where the temporary \<^verbatim>\<open>Y[j]\<close> is placed in front
  of the nest, in a wrap loop of its own over \<^verbatim>\<open>j\<close>: no loop encloses its place. With
  \<^verbatim>\<open>grp = G[j]\<close>, which depends on the dimension of the wrap loop only, and with
  \<^verbatim>\<open>grp = X[i]\<close>, the three conditions of the claim hold and yet nothing is aggregated: the
  code asks that \<^verbatim>\<open>grp\<close> depend on no loop of the nest, \<^verbatim>\<open>j\<close> and \<^verbatim>\<open>i\<close>. For \<^verbatim>\<open>G[j]\<close> the
  condition of the claim holds as well when the loops of the nest are taken to enclose the
  place.
\<close>

theorem hoist_in_place_counterexample:
  "spec_independent (loop_store scenario4) (\<lambda>g. if g = Str ''G'' then [''j''] else [])
      [] (Some 1) (Symbol (Str ''G'') [''j''])
   \<and> hoisted_symbol scenario4 (Symbol (Str ''Y'') [''j'']) = Some (Symbol (Str ''Y'') [''j''])
   \<and> \<not> is_read (expr_graph scenario4) (Str ''Y'')
   \<and> \<not> fst (cache_invalidate scenario4 (Symbol (Str ''Y'') [''j'']))
   \<and> spec_independent (loop_store scenario4) (\<lambda>g. if g = Str ''G'' then [''j''] else [])
      [3, 2] (Some 1) (Symbol (Str ''G'') [''j''])
   \<and> hoist (\<lambda>g. if g = Str ''G'' then [''j''] else []) scenario4
        (Symbol (Str ''Y'') [''j'']) (Symbol (Str ''G'') [''j''])
       = (Inr None, scenario4)
   \<and> spec_independent (loop_store scenario4) (\<lambda>g. if g = Str ''X'' then [''i''] else [])
      [] (Some 1) (Symbol (Str ''X'') [''i''])
   \<and> hoist (\<lambda>g. if g = Str ''X'' then [''i''] else []) scenario4
        (Symbol (Str ''Y'') [''j'']) (Symbol (Str ''X'') [''i''])
       = (Inr None, scenario4)"
  by (simp add: spec_independent_def depends_on_loop_def hoist_def hoisted_symbol_def cache_retrieve_def
      cache_invalidate_def is_read_def scenario4_def new_rewriter_def along_def add_edge_def
      empty_graph_def Let_def)


section \<open>The expander: distribution of products over sums\<close>

text \<open>
  \<^verbatim>\<open>ExpressionExpander._expand\<close> works on Python objects: it looks nodes up by identity
  (\<^verbatim>\<open>ast_replace\<close> in mode \<^verbatim>\<open>'symbol'\<close>, \<^verbatim>\<open>grp in self.expansions\<close>,
  \<^verbatim>\<open>parent.children.index(node)\<close>), moves an object into a new product and copies another
  with \<^verbatim>\<open>dcopy\<close>. The traversal is therefore modelled on trees whose nodes carry an
  identity, a natural number; \<open>erase\<close> forgets the identities and gives back the \<open>node\<close>
  that the other passes see.

  Modelled from the spec: the node classes (module \<^verbatim>\<open>base\<close>, not at hand) are taken to
  compare and hash by identity, which is what the lookups above rely on.
\<close>

datatype onode =
    OSymbol nat sval "string list"
  | OPar nat onode
  | OSum nat onode onode
  | OSub nat onode onode
  | OProd nat onode onode
  | ODiv nat onode onode
  | ONeg nat onode
  | OFunCall nat string "onode list"
  | OTernary nat onode onode onode

text \<open>The identity of an object.\<close>

fun ident :: "onode \<Rightarrow> nat" where
  "ident (OSymbol k s r) = k"
| "ident (OPar k c) = k"
| "ident (OSum k l r) = k"
| "ident (OSub k l r) = k"
| "ident (OProd k l r) = k"
| "ident (ODiv k l r) = k"
| "ident (ONeg k c) = k"
| "ident (OFunCall k f args) = k"
| "ident (OTernary k c t f) = k"

text \<open>The expression that a tree of objects denotes.\<close>

fun erase :: "onode \<Rightarrow> node" where
  "erase (OSymbol k s r) = Symbol s r"
| "erase (OPar k c) = Par (erase c)"
| "erase (OSum k l r) = Sum (erase l) (erase r)"
| "erase (OSub k l r) = Sub (erase l) (erase r)"
| "erase (OProd k l r) = Prod (erase l) (erase r)"
| "erase (ODiv k l r) = Div (erase l) (erase r)"
| "erase (ONeg k c) = Neg (erase c)"
| "erase (OFunCall k f args) = FunCall f (map erase args)"
| "erase (OTernary k c t f) = Ternary (erase c) (erase t) (erase f)"

text \<open>
  The objects of an expression in which no object occurs twice (the rewriter keeps this: licm
  ends with \<^verbatim>\<open>self.stmt.rvalue = dcopy(self.stmt.rvalue)\<close>): every node gets the next unused
  identity, in pre-order. The second component is the next unused identity.
\<close>

fun objects :: "nat \<Rightarrow> node \<Rightarrow> onode \<times> nat"
  and objects_list :: "nat \<Rightarrow> node list \<Rightarrow> onode list \<times> nat" where
  "objects n (Symbol s r) = (OSymbol n s r, Suc n)"
| "objects n (Par c) = (case objects (Suc n) c of (c', n1) \<Rightarrow> (OPar n c', n1))"
| "objects n (Sum l r) =
     (case objects (Suc n) l of (l', n1) \<Rightarrow>
        case objects n1 r of (r', n2) \<Rightarrow> (OSum n l' r', n2))"
| "objects n (Sub l r) =
     (case objects (Suc n) l of (l', n1) \<Rightarrow>
        case objects n1 r of (r', n2) \<Rightarrow> (OSub n l' r', n2))"
| "objects n (Prod l r) =
     (case objects (Suc n) l of (l', n1) \<Rightarrow>
        case objects n1 r of (r', n2) \<Rightarrow> (OProd n l' r', n2))"
| "objects n (Div l r) =
     (case objects (Suc n) l of (l', n1) \<Rightarrow>
        case objects n1 r of (r', n2) \<Rightarrow> (ODiv n l' r', n2))"
| "objects n (Neg c) = (case objects (Suc n) c of (c', n1) \<Rightarrow> (ONeg n c', n1))"
| "objects n (FunCall f args) =
     (case objects_list (Suc n) args of (args', n1) \<Rightarrow> (OFunCall n f args', n1))"
| "objects n (Ternary c t f) =
     (case objects (Suc n) c of (c', n1) \<Rightarrow>
        case objects n1 t of (t', n2) \<Rightarrow>
          case objects n2 f of (f', n3) \<Rightarrow> (OTernary n c' t' f', n3))"
| "objects_list n [] = ([], n)"
| "objects_list n (x # xs) =
     (case objects n x of (x', n1) \<Rightarrow>
        case objects_list n1 xs of (xs', n2) \<Rightarrow> (x' # xs', n2))"

text \<open>\<^verbatim>\<open>dcopy\<close>, Python's \<^verbatim>\<open>copy.deepcopy\<close>: the same expression, made of new objects.\<close>

definition dcopy :: "nat \<Rightarrow> onode \<Rightarrow> onode \<times> nat" where
  "dcopy n t = objects n (erase t)"

text \<open>
  Modelled from the spec: \<^verbatim>\<open>ast_replace(node, to_replace, mode='symbol')\<close> (module \<^verbatim>\<open>utils\<close>
  of the revision that \<^verbatim>\<open>rewriter.py\<close> imports; the \<^verbatim>\<open>utils.py\<close> at hand does not define it).
  Every child of \<^verbatim>\<open>node\<close> that is a key of the dictionary, looked up by identity, is replaced by
  the value of the key, and the search goes on in the children that were not replaced. A
  replaced child is not searched: its value holds the key itself. \<open>ast_replace_child m c\<close> is what
  the child \<open>c\<close> of \<^verbatim>\<open>node\<close> becomes; \<open>m\<close> is the dictionary, by identity of the key.
\<close>

fun ast_replace_child :: "(nat \<Rightarrow> onode option) \<Rightarrow> onode \<Rightarrow> onode" where
  "ast_replace_child m (OSymbol k s r) =
     (case m k of Some v \<Rightarrow> v | None \<Rightarrow> OSymbol k s r)"
| "ast_replace_child m (OPar k c) =
     (case m k of Some v \<Rightarrow> v | None \<Rightarrow> OPar k (ast_replace_child m c))"
| "ast_replace_child m (OSum k l r) =
     (case m k of Some v \<Rightarrow> v
      | None \<Rightarrow> OSum k (ast_replace_child m l) (ast_replace_child m r))"
| "ast_replace_child m (OSub k l r) =
     (case m k of Some v \<Rightarrow> v
      | None \<Rightarrow> OSub k (ast_replace_child m l) (ast_replace_child m r))"
| "ast_replace_child m (OProd k l r) =
     (case m k of Some v \<Rightarrow> v
      | None \<Rightarrow> OProd k (ast_replace_child m l) (ast_replace_child m r))"
| "ast_replace_child m (ODiv k l r) =
     (case m k of Some v \<Rightarrow> v
      | None \<Rightarrow> ODiv k (ast_replace_child m l) (ast_replace_child m r))"
| "ast_replace_child m (ONeg k c) =
     (case m k of Some v \<Rightarrow> v | None \<Rightarrow> ONeg k (ast_replace_child m c))"
| "ast_replace_child m (OFunCall k f args) =
     (case m k of Some v \<Rightarrow> v
      | None \<Rightarrow> OFunCall k f (map (ast_replace_child m) args))"
| "ast_replace_child m (OTernary k c t f) =
     (case m k of Some v \<Rightarrow> v
      | None \<Rightarrow> OTernary k (ast_replace_child m c) (ast_replace_child m t)
                  (ast_replace_child m f))"

text \<open>
  Modelled from the spec: \<^verbatim>\<open>ast_make_expr(Sum, v)\<close> (module \<^verbatim>\<open>utils\<close>, not at hand) for a list
  \<open>x # xs\<close> that is not empty: the only element, or the chain of new \<^verbatim>\<open>Sum\<close> nodes
  \<^verbatim>\<open>Sum(x1, Sum(x2, ...))\<close>.
\<close>

fun ast_make_Sum :: "nat \<Rightarrow> onode \<Rightarrow> onode list \<Rightarrow> onode \<times> nat" where
  "ast_make_Sum n x [] = (x, n)"
| "ast_make_Sum n x (y # ys) =
     (case ast_make_Sum n y ys of (r, n1) \<Rightarrow> (OSum n1 x r, Suc n1))"

text \<open>The two constants \<^verbatim>\<open>GROUP\<close> and \<^verbatim>\<open>EXPAND\<close> of the class.\<close>

datatype xkind = GROUP | EXPAND

text \<open>
  What \<^verbatim>\<open>_expand\<close> changes besides the tree: the list \<^verbatim>\<open>self.expansions\<close>, and the supply of
  unused identities.
\<close>

record xstate =
  fresh :: nat
  expansions :: "onode list"

text \<open>
  The outcome of \<^verbatim>\<open>_expand(node, parent)\<close>: the returned pair \<^verbatim>\<open>(expressions, kind)\<close>, and
  \<open>x_node\<close>, what stands in the place of \<^verbatim>\<open>node\<close> under \<^verbatim>\<open>parent\<close> after the call (the
  call mutates \<^verbatim>\<open>node\<close> in place, or assigns \<^verbatim>\<open>parent.children[parent.children.index(node)]\<close>).
\<close>

record xres =
  x_node :: onode
  x_exps :: "onode list"
  x_kind :: xkind

text \<open>\<^verbatim>\<open>self.expansions.remove(grp)\<close> when \<^verbatim>\<open>grp in self.expansions\<close>: the first occurrence.\<close>

fun remove_object :: "nat \<Rightarrow> onode list \<Rightarrow> onode list" where
  "remove_object k [] = []"
| "remove_object k (x # xs) = (if ident x = k then xs else x # remove_object k xs)"

text \<open>
  \<^verbatim>\<open>_build(exp, grp)\<close>: the new product \<^verbatim>\<open>Prod(exp, dcopy(grp))\<close>, which holds the object
  \<^verbatim>\<open>exp\<close> itself, is tracked, and \<^verbatim>\<open>grp\<close> is untracked.
\<close>

definition build :: "xstate \<Rightarrow> onode \<Rightarrow> onode \<Rightarrow> onode \<times> xstate" where
  "build st ex grp =
     (case dcopy (fresh st) grp of
        (grp', n1) \<Rightarrow>
          (let expansion = OProd n1 ex grp';
               tracked = expansions st @ [expansion]
           in (expansion,
               \<lparr> fresh = Suc n1, expansions = remove_object (ident grp) tracked \<rparr>)))"

text \<open>
  The loop \<^verbatim>\<open>for exp, grp in itertools.product(expandable, groupable)\<close> filling the ordered
  dictionary \<^verbatim>\<open>to_replace\<close>, whose keys are objects.
\<close>

fun build_loop ::
  "xstate \<Rightarrow> (onode \<times> onode) list \<Rightarrow> (nat \<times> onode list) list
     \<Rightarrow> (nat \<times> onode list) list \<times> xstate" where
  "build_loop st [] to_replace = (to_replace, st)"
| "build_loop st ((ex, grp) # rest) to_replace =
     (case build st ex grp of
        (expansion, st1) \<Rightarrow>
          build_loop st1 rest (setdefault_append to_replace (ident ex) expansion))"

text \<open>The dictionary \<^verbatim>\<open>{k: ast_make_expr(Sum, v) for k, v in to_replace.items()}\<close>.\<close>

fun make_sums :: "nat \<Rightarrow> (nat \<times> onode list) list \<Rightarrow> (nat \<times> onode) list \<times> nat" where
  "make_sums n [] = ([], n)"
| "make_sums n ((k, []) # kvs) = make_sums n kvs"
| "make_sums n ((k, x # xs) # kvs) =
     (case ast_make_Sum n x xs of
        (v, n1) \<Rightarrow> (case make_sums n1 kvs of (rest, n2) \<Rightarrow> ((k, v) # rest, n2)))"

text \<open>
  The \<^verbatim>\<open>Prod\<close> branch of \<^verbatim>\<open>_expand\<close> after the two recursive calls. \<^verbatim>\<open>ast_replace\<close> acts on
  both children of the node; only the child that is kept, \<^verbatim>\<open>node.right\<close> if the left one is
  \<^verbatim>\<open>GROUP\<close> and \<^verbatim>\<open>node.left\<close> otherwise, is of interest afterwards.
\<close>

definition expand_Prod :: "nat \<Rightarrow> xres \<Rightarrow> xres \<Rightarrow> xstate \<Rightarrow> xres \<times> xstate" where
  "expand_Prod k lres rres st =
     (let node = OProd k (x_node lres) (x_node rres) in
      if x_kind lres = GROUP \<and> x_kind rres = GROUP then
        (\<lparr> x_node = node, x_exps = [node], x_kind = GROUP \<rparr>, st)
      else
        (let groupable = (if x_kind lres = GROUP then x_exps lres else x_exps rres);
             expandable = (if x_kind lres = GROUP then x_exps rres else x_exps lres)
         in case build_loop st (List.product expandable groupable) [] of
              (to_replace, st1) \<Rightarrow>
                (case make_sums (fresh st1) to_replace of
                   (replacing, n1) \<Rightarrow>
                     (let expanded = ast_replace_child (map_of replacing)
                            (if x_kind lres = GROUP then x_node rres else x_node lres);
                          flat = concat (map snd to_replace)
                      in (\<lparr> x_node = expanded,
                            x_exps = (if flat = [] then [expanded] else flat),
                            x_kind = EXPAND \<rparr>,
                          st1\<lparr> fresh := n1 \<rparr>)))))"

text \<open>\<^verbatim>\<open>[Neg(r) for r in r_exps]\<close>: new \<^verbatim>\<open>Neg\<close> objects around the given ones.\<close>

fun negate_all :: "nat \<Rightarrow> onode list \<Rightarrow> onode list \<times> nat" where
  "negate_all n [] = ([], n)"
| "negate_all n (r # rs) =
     (case negate_all (Suc n) rs of (rs', n1) \<Rightarrow> (ONeg n r # rs', n1))"

text \<open>The \<^verbatim>\<open>Sum\<close> and \<^verbatim>\<open>Sub\<close> branch of \<^verbatim>\<open>_expand\<close> after the two recursive calls.\<close>

definition expand_Sum :: "nat \<Rightarrow> xres \<Rightarrow> xres \<Rightarrow> xstate \<Rightarrow> xres \<times> xstate" where
  "expand_Sum k lres rres st =
     (let node = OSum k (x_node lres) (x_node rres) in
      if x_kind lres = EXPAND \<and> x_kind rres = EXPAND then
        (\<lparr> x_node = node, x_exps = x_exps lres @ x_exps rres, x_kind = EXPAND \<rparr>, st)
      else (\<lparr> x_node = node, x_exps = [node], x_kind = GROUP \<rparr>, st))"

definition expand_Sub :: "nat \<Rightarrow> xres \<Rightarrow> xres \<Rightarrow> xstate \<Rightarrow> xres \<times> xstate" where
  "expand_Sub k lres rres st =
     (let node = OSub k (x_node lres) (x_node rres) in
      if x_kind lres = EXPAND \<and> x_kind rres = EXPAND then
        (case negate_all (fresh st) (x_exps rres) of
           (negs, n1) \<Rightarrow>
             (\<lparr> x_node = node, x_exps = x_exps lres @ negs, x_kind = EXPAND \<rparr>,
              st\<lparr> fresh := n1 \<rparr>))
      else (\<lparr> x_node = node, x_exps = [node], x_kind = GROUP \<rparr>, st))"

text \<open>
  \<^verbatim>\<open>_expand\<close>. A node of any other class (\<^verbatim>\<open>Neg\<close>, \<^verbatim>\<open>Ternary\<close>) raises \<^verbatim>\<open>RuntimeError\<close>;
  \<open>expand_children\<close> is the loop over the children of a \<^verbatim>\<open>Div\<close> or \<^verbatim>\<open>FunCall\<close>.
\<close>

fun expand_node :: "(node \<Rightarrow> bool) \<Rightarrow> onode \<Rightarrow> xstate \<Rightarrow> (error + xres) \<times> xstate"
  and expand_children ::
    "(node \<Rightarrow> bool) \<Rightarrow> onode list \<Rightarrow> xstate \<Rightarrow> (error + onode list) \<times> xstate" where
  "expand_node se (OSymbol k s r) st =
     (Inr \<lparr> x_node = OSymbol k s r, x_exps = [OSymbol k s r],
            x_kind = (if se (Symbol s r) then EXPAND else GROUP) \<rparr>, st)"
| "expand_node se (OPar k c) st =
     bind_res (expand_node se c st)
       (\<lambda>res st1. (Inr (res\<lparr> x_node := OPar k (x_node res) \<rparr>), st1))"
| "expand_node se (ODiv k l r) st =
     bind_res (expand_node se l st) (\<lambda>lres st1.
     bind_res (expand_node se r st1) (\<lambda>rres st2.
       (Inr \<lparr> x_node = ODiv k (x_node lres) (x_node rres),
              x_exps = [ODiv k (x_node lres) (x_node rres)], x_kind = GROUP \<rparr>, st2)))"
| "expand_node se (OFunCall k f args) st =
     bind_res (expand_children se args st) (\<lambda>args' st1.
       (Inr \<lparr> x_node = OFunCall k f args', x_exps = [OFunCall k f args'],
              x_kind = GROUP \<rparr>, st1))"
| "expand_node se (OProd k l r) st =
     bind_res (expand_node se l st) (\<lambda>lres st1.
     bind_res (expand_node se r st1) (\<lambda>rres st2.
       (case expand_Prod k lres rres st2 of (res, st3) \<Rightarrow> (Inr res, st3))))"
| "expand_node se (OSum k l r) st =
     bind_res (expand_node se l st) (\<lambda>lres st1.
     bind_res (expand_node se r st1) (\<lambda>rres st2.
       (case expand_Sum k lres rres st2 of (res, st3) \<Rightarrow> (Inr res, st3))))"
| "expand_node se (OSub k l r) st =
     bind_res (expand_node se l st) (\<lambda>lres st1.
     bind_res (expand_node se r st1) (\<lambda>rres st2.
       (case expand_Sub k lres rres st2 of (res, st3) \<Rightarrow> (Inr res, st3))))"
| "expand_node se (ONeg k c) st = (Inl RuntimeError, st)"
| "expand_node se (OTernary k c t f) st = (Inl RuntimeError, st)"
| "expand_children se [] st = (Inr [], st)"
| "expand_children se (n # ns) st =
     bind_res (expand_node se n st) (\<lambda>res st1.
     bind_res (expand_children se ns st1) (\<lambda>ns' st2. (Inr (x_node res # ns'), st2)))"

subsection \<open>What an expansion leaves behind\<close>

text \<open>
  An expression made of \<^verbatim>\<open>Sum\<close>, \<^verbatim>\<open>Sub\<close> and \<^verbatim>\<open>Par\<close> nodes over Symbols that all satisfy
  \<^verbatim>\<open>should_expand\<close>.
\<close>

fun only_expandable :: "(node \<Rightarrow> bool) \<Rightarrow> node \<Rightarrow> bool" where
  "only_expandable se (Symbol s r) = se (Symbol s r)"
| "only_expandable se (Par c) = only_expandable se c"
| "only_expandable se (Sum l r) = (only_expandable se l \<and> only_expandable se r)"
| "only_expandable se (Sub l r) = (only_expandable se l \<and> only_expandable se r)"
| "only_expandable se n = False"

text \<open>A sum or difference, possibly in parentheses, of such expressions.\<close>

fun expandable_sum :: "(node \<Rightarrow> bool) \<Rightarrow> node \<Rightarrow> bool" where
  "expandable_sum se (Sum l r) = (only_expandable se l \<and> only_expandable se r)"
| "expandable_sum se (Sub l r) = (only_expandable se l \<and> only_expandable se r)"
| "expandable_sum se (Par c) = expandable_sum se c"
| "expandable_sum se n = False"

text \<open>No product, anywhere in the expression, has such a sum as a factor.\<close>

fun distributed :: "(node \<Rightarrow> bool) \<Rightarrow> node \<Rightarrow> bool" where
  "distributed se (Symbol s r) = True"
| "distributed se (Par c) = distributed se c"
| "distributed se (Sum l r) = (distributed se l \<and> distributed se r)"
| "distributed se (Sub l r) = (distributed se l \<and> distributed se r)"
| "distributed se (Prod l r) =
     (\<not> expandable_sum se l \<and> \<not> expandable_sum se r \<and> distributed se l \<and> distributed se r)"
| "distributed se (Div l r) = (distributed se l \<and> distributed se r)"
| "distributed se (Neg c) = distributed se c"
| "distributed se (FunCall f args) = list_all (distributed se) args"
| "distributed se (Ternary c t f) = (distributed se c \<and> distributed se t \<and> distributed se f)"

text \<open>
  The invariant of the traversal: on the expressions returned (\<open>item_ok\<close>), on the tracked
  products (\<open>exp_ok\<close>), on the values of the replacement dictionary (\<open>val_ok\<close>) and on the
  outcome of a call (\<open>expand_inv\<close>).
\<close>

definition item_ok :: "(node \<Rightarrow> bool) \<Rightarrow> onode \<Rightarrow> bool" where
  "item_ok se e = (distributed se (erase e) \<and> \<not> expandable_sum se (erase e))"

definition exp_ok :: "(node \<Rightarrow> bool) \<Rightarrow> onode \<Rightarrow> bool" where
  "exp_ok se e = (is_Prod (erase e) \<and> distributed se (erase e))"

definition val_ok :: "(node \<Rightarrow> bool) \<Rightarrow> onode \<Rightarrow> bool" where
  "val_ok se v = (distributed se (erase v) \<and> \<not> only_expandable se (erase v))"

definition expand_inv :: "(node \<Rightarrow> bool) \<Rightarrow> xres \<Rightarrow> bool" where
  "expand_inv se res =
     (distributed se (erase (x_node res)) \<and> x_exps res \<noteq> []
      \<and> list_all (item_ok se) (x_exps res)
      \<and> (x_kind res = GROUP \<longrightarrow> \<not> only_expandable se (erase (x_node res))))"

lemma erase_objects:
  "erase (fst (objects n t)) = t"
  "map erase (fst (objects_list n ts)) = ts"
  by (induction n t and n ts rule: objects_objects_list.induct)
     (auto split: prod.splits)

lemma erase_dcopy: "dcopy n t = (t', n') \<Longrightarrow> erase t' = erase t"
  using erase_objects(1) [of n "erase t"] by (simp add: dcopy_def)

lemma is_Prod_not_Symbol:
  "is_Prod n \<Longrightarrow> \<not> only_expandable se n \<and> \<not> expandable_sum se n"
  by (cases n) auto

lemma expandable_sum_only: "expandable_sum se n \<Longrightarrow> only_expandable se n"
  by (induction se n rule: expandable_sum.induct) auto

lemma ast_make_Sum_ok:
  "exp_ok se x \<Longrightarrow> list_all (exp_ok se) xs \<Longrightarrow> ast_make_Sum n x xs = (v, n') \<Longrightarrow> val_ok se v"
proof (induction xs arbitrary: x n v n')
  case Nil
  then show ?case using is_Prod_not_Symbol [of "erase x" se] by (auto simp: val_ok_def exp_ok_def)
next
  case (Cons y ys)
  obtain r n1 where r: "ast_make_Sum n y ys = (r, n1)" by (cases "ast_make_Sum n y ys") auto
  from Cons.prems have y: "exp_ok se y" and ys: "list_all (exp_ok se) ys" by simp_all
  from y ys r have "val_ok se r" by (rule Cons.IH)
  moreover from Cons.prems(3) r have "v = OSum n1 x r" by simp
  ultimately show ?case
    using Cons.prems(1) is_Prod_not_Symbol [of "erase x" se]
    by (auto simp: val_ok_def exp_ok_def)
qed

lemma make_sums_ok:
  "list_all (\<lambda>kv. list_all (exp_ok se) (snd kv)) tr \<Longrightarrow> make_sums n tr = (replacing, n')
     \<Longrightarrow> list_all (\<lambda>kv. val_ok se (snd kv)) replacing"
proof (induction n tr arbitrary: replacing n' rule: make_sums.induct)
  case (1 n)
  then show ?case by simp
next
  case (2 n k kvs)
  then show ?case by simp
next
  case (3 n k x xs kvs)
  obtain v n1 where v: "ast_make_Sum n x xs = (v, n1)" by (cases "ast_make_Sum n x xs") auto
  obtain rest n2 where rest: "make_sums n1 kvs = (rest, n2)" by (cases "make_sums n1 kvs") auto
  from "3.prems" have ok: "exp_ok se x" "list_all (exp_ok se) xs"
    and oks: "list_all (\<lambda>kv. list_all (exp_ok se) (snd kv)) kvs" by simp_all
  from ok v have "val_ok se v" by (rule ast_make_Sum_ok)
  moreover from oks rest have "list_all (\<lambda>kv. val_ok se (snd kv)) rest"
    using "3.IH" v by simp
  moreover from "3.prems"(2) v rest have "replacing = (k, v) # rest" by simp
  ultimately show ?case by simp
qed

lemma map_of_val_ok:
  "list_all (\<lambda>kv. val_ok se (snd kv)) replacing \<Longrightarrow> map_of replacing k = Some v \<Longrightarrow> val_ok se v"
  by (auto simp: list_all_iff dest!: map_of_SomeD)

lemma build_ok:
  "item_ok se ex \<Longrightarrow> item_ok se grp \<Longrightarrow> build st ex grp = (x, st') \<Longrightarrow> exp_ok se x"
  by (auto simp: build_def item_ok_def exp_ok_def Let_def split: prod.splits dest!: erase_dcopy)

lemma setdefault_append_values:
  "concat (map snd (setdefault_append tr k x)) \<noteq> []"
proof (induction tr)
  case Nil
  show ?case by simp
next
  case (Cons a tr)
  then show ?case by (cases a) simp
qed

lemma setdefault_append_ok:
  "list_all (\<lambda>kv. list_all P (snd kv)) tr \<Longrightarrow> P x
     \<Longrightarrow> list_all (\<lambda>kv. list_all P (snd kv)) (setdefault_append tr k x)"
  by (induction tr) auto

lemma build_loop_ok:
  "list_all (\<lambda>p. item_ok se (fst p) \<and> item_ok se (snd p)) ps
     \<Longrightarrow> list_all (\<lambda>kv. list_all (exp_ok se) (snd kv)) tr
     \<Longrightarrow> build_loop st ps tr = (tr', st')
     \<Longrightarrow> list_all (\<lambda>kv. list_all (exp_ok se) (snd kv)) tr'
         \<and> (ps \<noteq> [] \<or> concat (map snd tr) \<noteq> [] \<longrightarrow> concat (map snd tr') \<noteq> [])"
proof (induction st ps tr arbitrary: tr' st' rule: build_loop.induct)
  case (1 st to_replace)
  then show ?case by simp
next
  case (2 st ex grp rest to_replace)
  obtain x st1 where b: "build st ex grp = (x, st1)" by (cases "build st ex grp") auto
  from "2.prems"(1) have io: "item_ok se ex" "item_ok se grp"
    and rest: "list_all (\<lambda>p. item_ok se (fst p) \<and> item_ok se (snd p)) rest" by simp_all
  from io b have x: "exp_ok se x" by (rule build_ok)
  have tr1: "list_all (\<lambda>kv. list_all (exp_ok se) (snd kv)) (setdefault_append to_replace (ident ex) x)"
    using "2.prems"(2) x by (rule setdefault_append_ok)
  have run: "build_loop st1 rest (setdefault_append to_replace (ident ex) x) = (tr', st')"
    using "2.prems"(3) b by simp
  have ne: "concat (map snd (setdefault_append to_replace (ident ex) x)) \<noteq> []"
    by (rule setdefault_append_values)
  from "2.IH" [OF b [symmetric] rest tr1 run] ne show ?case by simp
qed


lemma replace_child_only:
  assumes m: "\<forall>k v. m k = Some v \<longrightarrow> val_ok se v"
  shows "only_expandable se (erase (ast_replace_child m c)) \<Longrightarrow> only_expandable se (erase c)"
proof (induction c)
  case (OSymbol k s r)
  then show ?case using m by (cases "m k") (auto simp: val_ok_def)
next
  case (OPar k c)
  then show ?case using m by (cases "m k") (auto simp: val_ok_def)
next
  case (OSum k l r)
  then show ?case using m by (cases "m k") (auto simp: val_ok_def)
next
  case (OSub k l r)
  then show ?case using m by (cases "m k") (auto simp: val_ok_def)
next
  case (OProd k l r)
  then show ?case using m by (cases "m k") (auto simp: val_ok_def)
next
  case (ODiv k l r)
  then show ?case using m by (cases "m k") (auto simp: val_ok_def)
next
  case (ONeg k c)
  then show ?case using m by (cases "m k") (auto simp: val_ok_def)
next
  case (OFunCall k f args)
  then show ?case using m by (cases "m k") (auto simp: val_ok_def)
next
  case (OTernary k c t f)
  then show ?case using m by (cases "m k") (auto simp: val_ok_def)
qed

lemma replace_child_expandable_sum:
  assumes m: "\<forall>k v. m k = Some v \<longrightarrow> val_ok se v"
  shows "expandable_sum se (erase (ast_replace_child m c)) \<Longrightarrow> expandable_sum se (erase c)"
proof (induction c)
  case (OPar k c)
  then show ?case using m by (cases "m k") (auto simp: val_ok_def dest: expandable_sum_only)
next
  case (OSum k l r)
  then show ?case using m replace_child_only [OF m]
    by (cases "m k") (auto simp: val_ok_def dest: expandable_sum_only)
next
  case (OSub k l r)
  then show ?case using m replace_child_only [OF m]
    by (cases "m k") (auto simp: val_ok_def dest: expandable_sum_only)
next
  case (OSymbol k s r)
  then show ?case using m by (cases "m k") (auto simp: val_ok_def dest: expandable_sum_only)
next
  case (OProd k l r)
  then show ?case using m by (cases "m k") (auto simp: val_ok_def dest: expandable_sum_only)
next
  case (ODiv k l r)
  then show ?case using m by (cases "m k") (auto simp: val_ok_def dest: expandable_sum_only)
next
  case (ONeg k c)
  then show ?case using m by (cases "m k") (auto simp: val_ok_def dest: expandable_sum_only)
next
  case (OFunCall k f args)
  then show ?case using m by (cases "m k") (auto simp: val_ok_def dest: expandable_sum_only)
next
  case (OTernary k c t f)
  then show ?case using m by (cases "m k") (auto simp: val_ok_def dest: expandable_sum_only)
qed

lemma replace_child_distributed:
  assumes m: "\<forall>k v. m k = Some v \<longrightarrow> val_ok se v"
  shows "distributed se (erase c) \<Longrightarrow> distributed se (erase (ast_replace_child m c))"
proof (induction c)
  case (OProd k l r)
  show ?case
  proof (cases "m k")
    case None
    from OProd.prems have nl: "\<not> expandable_sum se (erase l)" and nr: "\<not> expandable_sum se (erase r)"
      and dl: "distributed se (erase l)" and dr: "distributed se (erase r)" by simp_all
    from nl have "\<not> expandable_sum se (erase (ast_replace_child m l))"
      using replace_child_expandable_sum [OF m] by blast
    moreover from nr have "\<not> expandable_sum se (erase (ast_replace_child m r))"
      using replace_child_expandable_sum [OF m] by blast
    ultimately show ?thesis using None OProd.IH dl dr by simp
  next
    case (Some v)
    with m show ?thesis by (auto simp: val_ok_def)
  qed
next
  case (OFunCall k f args)
  show ?case
  proof (cases "m k")
    case None
    with OFunCall show ?thesis by (auto simp: list_all_iff)
  next
    case (Some v)
    with m show ?thesis by (auto simp: val_ok_def)
  qed
qed (use m in \<open>auto simp: val_ok_def split: option.splits\<close>)

lemma expand_Prod_inv:
  assumes l: "expand_inv se lres" and r: "expand_inv se rres"
    and run: "expand_Prod k lres rres st = (res, st')"
  shows "expand_inv se res"
proof (cases "x_kind lres = GROUP \<and> x_kind rres = GROUP")
  case True
  with run have "res = \<lparr> x_node = OProd k (x_node lres) (x_node rres),
      x_exps = [OProd k (x_node lres) (x_node rres)], x_kind = GROUP \<rparr>"
    by (simp add: expand_Prod_def Let_def)
  with True l r show ?thesis
    by (auto simp: expand_inv_def item_ok_def dest: expandable_sum_only)
next
  case False
  let ?groupable = "if x_kind lres = GROUP then x_exps lres else x_exps rres"
  let ?expandable = "if x_kind lres = GROUP then x_exps rres else x_exps lres"
  let ?side = "if x_kind lres = GROUP then x_node rres else x_node lres"
  obtain tr st1 where bl: "build_loop st (List.product ?expandable ?groupable) [] = (tr, st1)"
    by (cases "build_loop st (List.product ?expandable ?groupable) []") auto
  obtain replacing n1 where ms: "make_sums (fresh st1) tr = (replacing, n1)"
    by (cases "make_sums (fresh st1) tr") auto
  from l r have ge: "list_all (item_ok se) ?groupable" "list_all (item_ok se) ?expandable"
    and ne: "?groupable \<noteq> []" "?expandable \<noteq> []"
    by (auto simp: expand_inv_def)
  have pairs: "list_all (\<lambda>p. item_ok se (fst p) \<and> item_ok se (snd p))
      (List.product ?expandable ?groupable)"
    using ge unfolding list_all_iff by auto
  have pne: "List.product ?expandable ?groupable \<noteq> []"
    using ne by (cases ?expandable; cases ?groupable) auto
  from build_loop_ok [OF pairs _ bl] pne
  have tr: "list_all (\<lambda>kv. list_all (exp_ok se) (snd kv)) tr" and flat: "concat (map snd tr) \<noteq> []"
    by simp_all
  from tr ms have vals: "list_all (\<lambda>kv. val_ok se (snd kv)) replacing" by (rule make_sums_ok)
  have m: "\<forall>k v. map_of replacing k = Some v \<longrightarrow> val_ok se v"
  proof (intro allI impI)
    fix k v
    assume "map_of replacing k = Some v"
    with vals show "val_ok se v" by (rule map_of_val_ok)
  qed
  from l r have "distributed se (erase ?side)" by (simp add: expand_inv_def)
  with m have d: "distributed se (erase (ast_replace_child (map_of replacing) ?side))"
    by (rule replace_child_distributed)
  from run False bl ms
  have res: "res = \<lparr> x_node = ast_replace_child (map_of replacing) ?side,
      x_exps = concat (map snd tr), x_kind = EXPAND \<rparr>"
    by (auto simp: expand_Prod_def Let_def flat simp del: concat_eq_Nil_conv)
  have items: "list_all (item_ok se) (concat (map snd tr))"
    using tr is_Prod_not_Symbol unfolding list_all_iff exp_ok_def item_ok_def by fastforce
  from res d flat items show ?thesis by (simp add: expand_inv_def)
qed

lemma expand_Sum_inv:
  assumes "expand_inv se lres" and "expand_inv se rres"
    and "expand_Sum k lres rres st = (res, st')"
  shows "expand_inv se res"
  using assms
  by (cases "x_kind lres"; cases "x_kind rres")
     (auto simp: expand_Sum_def expand_inv_def item_ok_def Let_def)

lemma negate_all_ok:
  "list_all (item_ok se) rs \<Longrightarrow> negate_all n rs = (negs, n') \<Longrightarrow> list_all (item_ok se) negs"
  by (induction n rs arbitrary: negs n' rule: negate_all.induct)
     (auto simp: item_ok_def split: prod.splits)

lemma expand_Sub_inv:
  assumes "expand_inv se lres" and "expand_inv se rres"
    and "expand_Sub k lres rres st = (res, st')"
  shows "expand_inv se res"
  using assms
  by (cases "x_kind lres"; cases "x_kind rres")
     (auto simp: expand_Sub_def expand_inv_def item_ok_def Let_def split: prod.splits
           dest: negate_all_ok)


lemma expand_node_inv:
  "expand_node se n st = (Inr res, st') \<Longrightarrow> expand_inv se res"
  and expand_children_inv:
  "expand_children se ns st = (Inr ns', st') \<Longrightarrow> list_all (\<lambda>c. distributed se (erase c)) ns'"
proof (induction se n st and se ns st arbitrary: res st' and ns' st'
    rule: expand_node_expand_children.induct)
  case (1 se k s r st)
  then show ?case by (auto simp: expand_inv_def item_ok_def)
next
  case (2 se k c st)
  from "2.prems" obtain cres st1 where c: "expand_node se c st = (Inr cres, st1)"
    and res: "res = cres\<lparr> x_node := OPar k (x_node cres) \<rparr>"
    by (auto elim!: bind_resE)
  from c have "expand_inv se cres" by (rule "2.IH")
  with res show ?case by (simp add: expand_inv_def)
next
  case (3 se k l r st)
  from "3.prems" obtain lres st1 rres st2 where l: "expand_node se l st = (Inr lres, st1)"
    and r: "expand_node se r st1 = (Inr rres, st2)"
    and res: "res = \<lparr> x_node = ODiv k (x_node lres) (x_node rres),
              x_exps = [ODiv k (x_node lres) (x_node rres)], x_kind = GROUP \<rparr>"
    by (auto elim!: bind_resE)
  from l have "expand_inv se lres" by (rule "3.IH"(1))
  moreover from r have "expand_inv se rres" by (rule "3.IH"(2))
  ultimately show ?case using res by (simp add: expand_inv_def item_ok_def)
next
  case (4 se k f args st)
  from "4.prems" obtain args' where a: "expand_children se args st = (Inr args', st')"
    and res: "res = \<lparr> x_node = OFunCall k f args', x_exps = [OFunCall k f args'],
              x_kind = GROUP \<rparr>"
    by (auto elim!: bind_resE)
  from a have "list_all (\<lambda>c. distributed se (erase c)) args'" by (rule "4.IH")
  with res show ?case by (simp add: expand_inv_def item_ok_def list_all_iff)
next
  case (5 se k l r st)
  from "5.prems" obtain lres st1 rres st2 where l: "expand_node se l st = (Inr lres, st1)"
    and r: "expand_node se r st1 = (Inr rres, st2)"
    and res: "expand_Prod k lres rres st2 = (res, st')"
    by (auto elim!: bind_resE split: prod.splits)
  from l have "expand_inv se lres" by (rule "5.IH"(1))
  moreover from r have "expand_inv se rres" by (rule "5.IH"(2))
  ultimately show ?case using res by (rule expand_Prod_inv)
next
  case (6 se k l r st)
  from "6.prems" obtain lres st1 rres st2 where l: "expand_node se l st = (Inr lres, st1)"
    and r: "expand_node se r st1 = (Inr rres, st2)"
    and res: "expand_Sum k lres rres st2 = (res, st')"
    by (auto elim!: bind_resE split: prod.splits)
  from l have "expand_inv se lres" by (rule "6.IH"(1))
  moreover from r have "expand_inv se rres" by (rule "6.IH"(2))
  ultimately show ?case using res by (rule expand_Sum_inv)
next
  case (7 se k l r st)
  from "7.prems" obtain lres st1 rres st2 where l: "expand_node se l st = (Inr lres, st1)"
    and r: "expand_node se r st1 = (Inr rres, st2)"
    and res: "expand_Sub k lres rres st2 = (res, st')"
    by (auto elim!: bind_resE split: prod.splits)
  from l have "expand_inv se lres" by (rule "7.IH"(1))
  moreover from r have "expand_inv se rres" by (rule "7.IH"(2))
  ultimately show ?case using res by (rule expand_Sub_inv)
next
  case (8 se k c st)
  then show ?case by simp
next
  case (9 se k c t f st)
  then show ?case by simp
next
  case (10 se st)
  then show ?case by simp
next
  case (11 se n ns st)
  from "11.prems" obtain res st1 rest where n: "expand_node se n st = (Inr res, st1)"
    and ns: "expand_children se ns st1 = (Inr rest, st')"
    and eq: "ns' = x_node res # rest"
    by (auto elim!: bind_resE)
  from n have "expand_inv se res" by (rule "11.IH"(1))
  moreover from ns have "list_all (\<lambda>c. distributed se (erase c)) rest" by (rule "11.IH"(2))
  ultimately show ?case using eq by (simp add: expand_inv_def)
qed


subsection \<open>The pass\<close>

text \<open>
  The loop \<^verbatim>\<open>for expansion in self.expansions\<close> of \<^verbatim>\<open>expand\<close>. When \<^verbatim>\<open>_hoist\<close> returns a
  dictionary that is not empty, the statement is updated by
  \<^verbatim>\<open>ast_replace(parent, hoisted, copy=True, mode='symbol')\<close> and
  \<^verbatim>\<open>ast_remove(parent, expansion.right, mode='symbol')\<close>; \<^verbatim>\<open>ast_remove\<close> is not at hand, and the
  two calls together are the parameter \<open>apply_hoisted\<close>. Every tracked expansion is a product
  built by \<open>build\<close>.
\<close>

fun aggregate ::
  "(sval \<Rightarrow> string list) \<Rightarrow> (node \<times> node \<Rightarrow> onode \<Rightarrow> rewriter \<Rightarrow> rewriter)
     \<Rightarrow> onode list \<Rightarrow> rewriter \<Rightarrow> error + rewriter" where
  "aggregate info apply_hoisted [] self = Inr self"
| "aggregate info apply_hoisted (OProd k l r # rest) self =
     (case hoist info self (erase l) (erase r) of
        (Inl e, s1) \<Rightarrow> Inl e
      | (Inr None, s1) \<Rightarrow> aggregate info apply_hoisted rest s1
      | (Inr (Some h), s1) \<Rightarrow>
          aggregate info apply_hoisted rest (apply_hoisted h (OProd k l r) s1))"
| "aggregate info apply_hoisted (x # rest) self = aggregate info apply_hoisted rest self"

text \<open>
  \<^verbatim>\<open>ExpressionExpander.expand(should_expand, **kwargs)\<close> on the statement of the session
  (no \<^verbatim>\<open>subexprs\<close> given, as the facade calls it). \<open>info\<close> stands for the data that \<^verbatim>\<open>visit\<close>
  collects.
\<close>

definition expander_expand ::
  "(sval \<Rightarrow> string list) \<Rightarrow> (node \<times> node \<Rightarrow> onode \<Rightarrow> rewriter \<Rightarrow> rewriter)
     \<Rightarrow> (node \<Rightarrow> bool) \<Rightarrow> rw_kwargs \<Rightarrow> rewriter \<Rightarrow> error + rewriter" where
  "expander_expand info apply_hoisted se kwargs self =
     (let s0 = self\<lparr> should_expand := se \<rparr> in
      case objects 0 (rvalue (stmt s0)) of
        (t, n) \<Rightarrow>
          (case expand_node se t \<lparr> fresh = n, expansions = [] \<rparr> of
             (Inl e, st) \<Rightarrow> Inl e
           | (Inr res, st) \<Rightarrow>
               (let s1 = s0\<lparr> stmt := set_rvalue (stmt s0) (erase (x_node res)) \<rparr> in
                if kw_not_aggregate kwargs then Inr s1
                else aggregate info apply_hoisted (expansions st) s1)))"

lemma hoist_no_hoisted: "hoisted self = [] \<Longrightarrow> hoist info self l r = (Inr None, self)"
  by (simp add: hoist_def hoisted_symbol_def)

lemma aggregate_no_hoisted:
  "hoisted self = [] \<Longrightarrow> aggregate info ap xs self = Inr self"
  by (induction info ap xs self rule: aggregate.induct) (simp_all add: hoist_no_hoisted)

text \<open>The expressions made of the node classes that \<^verbatim>\<open>_expand\<close> knows.\<close>

fun known_nodes :: "node \<Rightarrow> bool" where
  "known_nodes (Symbol s r) = True"
| "known_nodes (Par c) = known_nodes c"
| "known_nodes (Sum l r) = (known_nodes l \<and> known_nodes r)"
| "known_nodes (Sub l r) = (known_nodes l \<and> known_nodes r)"
| "known_nodes (Prod l r) = (known_nodes l \<and> known_nodes r)"
| "known_nodes (Div l r) = (known_nodes l \<and> known_nodes r)"
| "known_nodes (Neg c) = False"
| "known_nodes (FunCall f args) = list_all known_nodes args"
| "known_nodes (Ternary c t f) = False"

lemma expand_node_returns:
  "known_nodes (erase n) \<Longrightarrow> \<exists>res st'. expand_node se n st = (Inr res, st')"
  and expand_children_returns:
  "list_all (\<lambda>c. known_nodes (erase c)) ns
     \<Longrightarrow> \<exists>ns' st'. expand_children se ns st = (Inr ns', st')"
proof (induction se n st and se ns st rule: expand_node_expand_children.induct)
  case (2 se k c st)
  then obtain cres st1 where "expand_node se c st = (Inr cres, st1)" by auto
  then show ?case by (simp add: bind_res_def)
next
  case (3 se k l r st)
  from 3 obtain lres st1 where l: "expand_node se l st = (Inr lres, st1)" by auto
  from 3 have "\<exists>rres st2. expand_node se r st1 = (Inr rres, st2)" by simp
  then obtain rres st2 where r: "expand_node se r st1 = (Inr rres, st2)" by blast
  from l r show ?case by (simp add: bind_res_def)
next
  case (4 se k f args st)
  then obtain args' st1 where "expand_children se args st = (Inr args', st1)"
    by (auto simp: list_all_iff)
  then show ?case by (simp add: bind_res_def)
next
  case (5 se k l r st)
  from 5 obtain lres st1 where l: "expand_node se l st = (Inr lres, st1)" by auto
  from 5 have "\<exists>rres st2. expand_node se r st1 = (Inr rres, st2)" by simp
  then obtain rres st2 where r: "expand_node se r st1 = (Inr rres, st2)" by blast
  from l r show ?case by (simp add: bind_res_def split: prod.splits)
next
  case (6 se k l r st)
  from 6 obtain lres st1 where l: "expand_node se l st = (Inr lres, st1)" by auto
  from 6 have "\<exists>rres st2. expand_node se r st1 = (Inr rres, st2)" by simp
  then obtain rres st2 where r: "expand_node se r st1 = (Inr rres, st2)" by blast
  from l r show ?case by (simp add: bind_res_def split: prod.splits)
next
  case (7 se k l r st)
  from 7 obtain lres st1 where l: "expand_node se l st = (Inr lres, st1)" by auto
  from 7 have "\<exists>rres st2. expand_node se r st1 = (Inr rres, st2)" by simp
  then obtain rres st2 where r: "expand_node se r st1 = (Inr rres, st2)" by blast
  from l r show ?case by (simp add: bind_res_def split: prod.splits)
next
  case (11 se n ns st)
  from 11 obtain res st1 where n: "expand_node se n st = (Inr res, st1)" by auto
  from 11 have "\<exists>ns' st2. expand_children se ns st1 = (Inr ns', st2)" by simp
  then obtain ns' st2 where ns: "expand_children se ns st1 = (Inr ns', st2)" by blast
  from n ns show ?case by (simp add: bind_res_def)
qed simp_all




end
